theory Spec2Isabelle
  imports Main "HOL-Library.Sublist" "HOL-Library.Multiset" "HOL-Library.AList"
begin

section \<open>Values, errors and outcomes\<close>

text \<open>
  The option kinds of the source (\<open>optType\<close>, an \<open>iota\<close> enumeration) in the order
  they are declared.
\<close>

datatype optType =
    noneType | stringType | intType | int8Type | int16Type | int32Type | int64Type
  | uintType | uint8Type | uint16Type | uint32Type | uint64Type | float32Type | float64Type
  | stringsType | intsType | int64sType | uintsType | uint64sType

text \<open>
  A Go \<open>interface{}\<close> value as far as the option code inspects it: a string or an int.
  The nil interface is \<open>None\<close> of \<open>val option\<close>. Go's \<open>int\<close> is taken at 64 bits, so the
  conversion \<open>int(_v)\<close> of an \<open>int64\<close> is the identity.
\<close>

datatype val = VString string | VInt int

text \<open>
  Errors are kept structured: each constructor stands for one \<open>fmt.Errorf\<close> message or
  one error variable of the source, with the values the message is formatted from.
  \<open>ErrExternal\<close> is an error produced outside the configuration manager (by a parser
  hook, a validator or a conversion routine).
\<close>

datatype error =
    ErrParsed
  | ErrNotParsed
  | ErrEmptySeparator
  | ErrNegativePriority
  | ErrNoGroup string
  | ErrNoOption string string
  | ErrParserFailed string error
  | ErrMissingRequired string string
  | ErrUnsupportedType optType
  | ErrTypeAssertion
  | ErrNilGroup
  | ErrReregister string string
  | ErrExternal string

text \<open>
  A Go call either panics or returns. A returned \<open>error\<close> is part of the returned value
  (\<open>error option\<close>, \<open>None\<close> for nil); a panic is \<open>Panic\<close>.
\<close>

datatype 'a outcome = Panic error | Return 'a

section \<open>Strings\<close>

text \<open>\<open>strings.TrimPrefix\<close>, \<open>strings.Join\<close>, \<open>strings.Index\<close>, \<open>strings.Split\<close> and
  \<open>strings.Trim\<close> on byte strings.\<close>

definition TrimPrefix :: "string \<Rightarrow> string \<Rightarrow> string" where
  "TrimPrefix s p = (if prefix p s then drop (length p) s else s)"

fun Join :: "string list \<Rightarrow> string \<Rightarrow> string" where
  "Join [] sep = []"
| "Join [x] sep = x"
| "Join (x # y # ys) sep = x @ sep @ Join (y # ys) sep"

fun Index :: "string \<Rightarrow> string \<Rightarrow> nat option" where
  "Index [] sep = (if sep = [] then Some 0 else None)"
| "Index (x # xs) sep =
     (if prefix sep (x # xs) then Some 0 else map_option Suc (Index xs sep))"

lemma Index_nonempty: "Index s sep = Some i \<Longrightarrow> sep \<noteq> [] \<Longrightarrow> s \<noteq> []"
  by (cases s) auto

text \<open>
  \<open>strings.Split\<close>: with a non-empty separator the string is cut at the leftmost,
  non-overlapping occurrences; with the empty separator it is exploded (into bytes here,
  into UTF-8 sequences in Go, which is the same on ASCII).
\<close>

function Split :: "string \<Rightarrow> string \<Rightarrow> string list" where
  "Split s sep =
     (if sep = [] then map (\<lambda>ch. [ch]) s
      else (case Index s sep of
              None \<Rightarrow> [s]
            | Some i \<Rightarrow> take i s # Split (drop (i + length sep) s) sep))"
  by pat_completeness auto
termination
proof (relation "measure (\<lambda>(s, sep). length s)")
  show "wf (measure (\<lambda>(s, sep). length s))" by simp
next
  fix s sep :: string and i :: nat
  assume "sep \<noteq> []" and "Index s sep = Some i"
  then have "s \<noteq> []" by (rule Index_nonempty [rotated])
  with \<open>sep \<noteq> []\<close> show "((drop (i + length sep) s, sep), (s, sep)) \<in> measure (\<lambda>(s, sep). length s)"
    by (cases s; cases sep) auto
qed

declare Split.simps [simp del]

text \<open>
  \<open>strings.Trim\<close> removes the leading and trailing Unicode code points that occur in the
  cutset; here the bytes that occur in it are removed, which is the same when the cutset
  is ASCII. No statement below depends on \<open>Trim\<close> with another cutset.
\<close>

definition Trim :: "string \<Rightarrow> string \<Rightarrow> string" where
  "Trim s cutset =
     rev (dropWhile (\<lambda>ch. ch \<in> set cutset) (rev (dropWhile (\<lambda>ch. ch \<in> set cutset) s)))"

section \<open>Options\<close>

record baseOpt =
  Name :: string
  Help :: string
  Short :: string
  Required :: bool
  Default :: "val option"
  otype :: optType

text \<open>\<open>baseOpt.GetDefault\<close>: the type assertions \<open>o.Default.(string)\<close> and
  \<open>o.Default.(int)\<close> panic on a value of another dynamic type.\<close>

definition GetDefault :: "baseOpt \<Rightarrow> val option outcome" where
  "GetDefault b =
     (case Default b of
        None \<Rightarrow> Return None
      | Some d \<Rightarrow>
          (case otype b of
             stringType \<Rightarrow> (case d of VString s \<Rightarrow> Return (Some (VString s)) | _ \<Rightarrow> Panic ErrTypeAssertion)
           | intType \<Rightarrow> (case d of VInt i \<Rightarrow> Return (Some (VInt i)) | _ \<Rightarrow> Panic ErrTypeAssertion)
           | t \<Rightarrow> Panic (ErrUnsupportedType t)))"

definition newBaseOpt ::
  "string \<Rightarrow> string \<Rightarrow> val option \<Rightarrow> bool \<Rightarrow> string \<Rightarrow> optType \<Rightarrow> baseOpt outcome" where
  "newBaseOpt short name default' required help optType =
     (let b = \<lparr>Name = name, Help = help, Short = short, Required = required,
                Default = default', otype = optType\<rparr>
      in case GetDefault b of Panic e \<Rightarrow> Panic e | Return _ \<Rightarrow> Return b)"

text \<open>
  \<open>baseOpt.Parse\<close>. The conversion routines \<open>ToString\<close> and \<open>ToInt64\<close> are not part of
  the sources at hand; they are parameters, each returning its value or its error.
  The result is the returned pair \<open>(interface{}, error)\<close>: \<open>Inr\<close> the value, \<open>Inl\<close> the
  error.
\<close>

definition baseOpt_Parse ::
  "(string \<Rightarrow> error + string) \<Rightarrow> (string \<Rightarrow> error + int) \<Rightarrow> baseOpt \<Rightarrow> string
     \<Rightarrow> (error + val) outcome" where
  "baseOpt_Parse ToString ToInt64 b data =
     (case otype b of
        stringType \<Rightarrow> Return (case ToString data of Inl e \<Rightarrow> Inl e | Inr s \<Rightarrow> Inr (VString s))
      | intType \<Rightarrow> Return (case ToInt64 data of Inl e \<Rightarrow> Inl e | Inr v \<Rightarrow> Inr (VInt v))
      | t \<Rightarrow> Panic (ErrUnsupportedType t))"

text \<open>The two implementations of the \<open>Opt\<close> interface, each embedding a \<open>baseOpt\<close>
  whose methods are promoted.\<close>

datatype Opt = strOpt baseOpt | intOpt baseOpt

fun Opt_base :: "Opt \<Rightarrow> baseOpt" where
  "Opt_base (strOpt b) = b"
| "Opt_base (intOpt b) = b"

definition Opt_Parse ::
  "(string \<Rightarrow> error + string) \<Rightarrow> (string \<Rightarrow> error + int) \<Rightarrow> Opt \<Rightarrow> string
     \<Rightarrow> (error + val) outcome" where
  "Opt_Parse ToString ToInt64 opt data = baseOpt_Parse ToString ToInt64 (Opt_base opt) data"

definition NewStrOpt :: "string \<Rightarrow> string \<Rightarrow> val option \<Rightarrow> bool \<Rightarrow> string \<Rightarrow> Opt outcome" where
  "NewStrOpt short name default' required help =
     (case newBaseOpt short name default' required help stringType of
        Panic e \<Rightarrow> Panic e | Return b \<Rightarrow> Return (strOpt b))"

definition NewIntOpt :: "string \<Rightarrow> string \<Rightarrow> val option \<Rightarrow> bool \<Rightarrow> string \<Rightarrow> Opt outcome" where
  "NewIntOpt short name default' required help =
     (case newBaseOpt short name default' required help stringType of
        Panic e \<Rightarrow> Panic e | Return b \<Rightarrow> Return (intOpt b))"

section \<open>Option groups\<close>

text \<open>
  Modelled from the spec: the type \<open>OptGroup\<close>, declared in a file of the repository that
  is not among the sources. A group has a \<open>name\<close> and a \<open>fullPath\<close>, both immutable,
  and a mapping from option names to options; the runtime state of an option is its
  \<open>currentValue\<close> (typed, or absent) and its \<open>setPriority\<close>, the priority of the source
  that last successfully wrote it. A Go map is an association list with distinct keys;
  the order of the list stands for the order in which a \<open>range\<close> visits the map.
\<close>

record optEntry =
  opt :: Opt
  cli :: bool
  currentValue :: "val option"
  setPriority :: int

record OptGroup =
  group_name :: string
  group_fullName :: string
  opts :: "(string \<times> optEntry) list"

text \<open>
  Modelled from the spec: the constructor \<open>newOptGroup(name, fullName, c)\<close> of the
  missing file. A new group has the given name and full path and no options.
\<close>

definition OptGroup_new :: "string \<Rightarrow> string \<Rightarrow> OptGroup" where
  "OptGroup_new name fullName = \<lparr>group_name = name, group_fullName = fullName, opts = []\<rparr>"

text \<open>
  Modelled from the spec: \<open>OptGroup.setOptValue\<close> of the missing file. The write fails
  if the option does not exist. Otherwise \<open>currentValue\<close>, once set by a source, is only
  overwritten by a write whose priority is greater than or equal to \<open>setPriority\<close>,
  except priority \<open>0\<close>, which always wins (\<open>admits\<close>); a write that loses is dropped
  without an error. The observer callback has no effect on the registry and is left out.
\<close>

definition admits :: "int \<Rightarrow> optEntry \<Rightarrow> bool" where
  "admits priority e \<longleftrightarrow>
     currentValue e = None \<or> priority = 0 \<or> setPriority e \<le> priority"

definition OptGroup_setOptValue ::
  "int \<Rightarrow> string \<Rightarrow> val \<Rightarrow> OptGroup \<Rightarrow> error option \<times> OptGroup" where
  "OptGroup_setOptValue priority name v g =
     (case map_of (opts g) name of
        None \<Rightarrow> (Some (ErrNoOption (group_name g) name), g)
      | Some e \<Rightarrow>
          if admits priority e
          then (None, g\<lparr>opts := AList.update name
                                   (e\<lparr>currentValue := Some v, setPriority := priority\<rparr>) (opts g)\<rparr>)
          else (None, g))"

text \<open>
  Modelled from the spec: \<open>OptGroup.checkRequiredOption\<close> of the missing file. Every
  required option must have a non-absent value, its own default counting; the first
  violation is a missing-required-option error naming the group and the option.
\<close>

definition isMissing :: "optEntry \<Rightarrow> bool" where
  "isMissing e \<longleftrightarrow>
     Required (Opt_base (opt e)) \<and> currentValue e = None \<and> Default (Opt_base (opt e)) = None"

definition OptGroup_checkRequiredOption :: "OptGroup \<Rightarrow> error option" where
  "OptGroup_checkRequiredOption g =
     (case List.find (\<lambda>(n, e). isMissing e) (opts g) of
        None \<Rightarrow> None
      | Some (n, e) \<Rightarrow> Some (ErrMissingRequired (group_name g) n))"

section \<open>The configuration manager\<close>

text \<open>
  The struct \<open>Config\<close>. Parsers and validators are values of interfaces implemented
  outside the manager, so their types are parameters: \<open>'p\<close> for a \<open>Parser\<close> and \<open>'v\<close> for
  the bound method \<open>v.Validate\<close> of a registered struct. The fields \<open>vName\<close>, \<open>vHelp\<close>,
  \<open>vVersion\<close> and \<open>watch\<close> are read by no function modelled here and are left out, and
  so is the debug output, which only prints.
  A \<open>*OptGroup\<close> is the key under which \<open>groups\<close> holds the group: every group object is
  stored by \<open>newOptGroup\<close> under exactly one key.
\<close>

record ('p, 'v) Config =
  parsed :: bool
  isRequired :: bool
  isDebug :: bool
  isPanic :: bool
  isZero :: bool
  args :: "string list"
  cliArgs :: "string list"
  parsers :: "'p list"
  groupSep :: string
  groupName :: string
  groupPrefix :: string
  groups :: "(string \<times> OptGroup) list"
  validators :: "'v list"

text \<open>
  The methods of the \<open>Parser\<close> interface and of \<open>StructValidator\<close>, as the functions that
  interpret a parser or a validator. A hook receives the manager, may change it and
  returns its error.
\<close>

record ('p, 'v, 'c) Env =
  pName :: "'p \<Rightarrow> string"
  pPriority :: "'p \<Rightarrow> int"
  Pre :: "'p \<Rightarrow> 'c \<Rightarrow> error option \<times> 'c"
  ParseHook :: "'p \<Rightarrow> 'c \<Rightarrow> error option \<times> 'c"
  Post :: "'p \<Rightarrow> 'c \<Rightarrow> error option \<times> 'c"
  Validate :: "'v \<Rightarrow> error option"

text \<open>Modelled from the spec: the constant \<open>DefaultGroupName\<close>, declared outside the
  sources; the default group is named DEFAULT.\<close>

definition DefaultGroupName :: string where
  "DefaultGroupName = ''DEFAULT''"

definition panicIsParsed :: "bool \<Rightarrow> ('p, 'v) Config \<Rightarrow> unit outcome" where
  "panicIsParsed p c =
     (if p \<and> parsed c then Panic ErrParsed
      else if \<not> p \<and> \<not> parsed c then Panic ErrNotParsed
      else Return ())"

definition Parsed :: "('p, 'v) Config \<Rightarrow> bool" where
  "Parsed c = parsed c"

definition SetDefaultGroupName ::
  "string \<Rightarrow> ('p, 'v) Config \<Rightarrow> unit outcome \<times> ('p, 'v) Config" where
  "SetDefaultGroupName name c =
     (case panicIsParsed True c of
        Panic e \<Rightarrow> (Panic e, c)
      | Return _ \<Rightarrow> (Return (), c\<lparr>groupName := name, groupPrefix := name @ groupSep c\<rparr>))"

definition SetGroupSeparator ::
  "string \<Rightarrow> ('p, 'v) Config \<Rightarrow> unit outcome \<times> ('p, 'v) Config" where
  "SetGroupSeparator sep c =
     (if sep = [] then (Panic ErrEmptySeparator, c)
      else case panicIsParsed True c of
             Panic e \<Rightarrow> (Panic e, c)
           | Return _ \<Rightarrow> (Return (), c\<lparr>groupSep := sep, groupPrefix := groupName c @ sep\<rparr>))"

definition NewConfig :: "('p, 'v) Config" where
  "NewConfig =
     snd (SetGroupSeparator ''.''
       \<lparr>parsed = False, isRequired = True, isDebug = False, isPanic = True, isZero = True,
        args = [], cliArgs = [], parsers = [], groupSep = [], groupName = DefaultGroupName,
        groupPrefix = [], groups = [], validators = []\<rparr>)"

subsection \<open>Groups of the manager\<close>

definition getGroupName :: "string \<Rightarrow> ('p, 'v) Config \<Rightarrow> string" where
  "getGroupName name c = (if name = [] then groupName c else name)"

definition newOptGroup ::
  "string \<Rightarrow> string \<Rightarrow> ('p, 'v) Config \<Rightarrow> ('p, 'v) Config" where
  "newOptGroup name fullName c =
     (case map_of (groups c) name of
        None \<Rightarrow> c\<lparr>groups := groups c @ [(name, OptGroup_new name fullName)]\<rparr>
      | Some g \<Rightarrow> c)"

text \<open>The pointer \<open>c.groups[name]\<close>: the key when the map holds it, nil otherwise.\<close>

definition groupPtr :: "string \<Rightarrow> ('p, 'v) Config \<Rightarrow> string option" where
  "groupPtr name c = (if map_of (groups c) name = None then None else Some name)"

definition getGroupByName ::
  "string \<Rightarrow> bool \<Rightarrow> ('p, 'v) Config \<Rightarrow> string option \<times> ('p, 'v) Config" where
  "getGroupByName name0 new c =
     (let name = TrimPrefix name0 (groupPrefix c) in
      if \<not> new then (groupPtr (getGroupName name c) c, c)
      else if name = [] then
        (let c' = newOptGroup (groupName c) (groupName c) c in (groupPtr (groupName c) c', c'))
      else
        (let gs = Split name (groupSep c);
             c' = fold (\<lambda>(i, gname) c1.
                     let fullName = Join (take (i + 1) gs) (groupSep c)
                     in newOptGroup gname fullName (newOptGroup fullName fullName c1))
                   (enumerate 0 gs) c
         in (groupPtr name c', c')))"

definition NewGroup ::
  "string \<Rightarrow> ('p, 'v) Config \<Rightarrow> string option outcome \<times> ('p, 'v) Config" where
  "NewGroup grp c =
     (case panicIsParsed True c of
        Panic e \<Rightarrow> (Panic e, c)
      | Return _ \<Rightarrow> (case getGroupByName grp True c of (g, c') \<Rightarrow> (Return g, c')))"

definition HasGroup :: "string \<Rightarrow> ('p, 'v) Config \<Rightarrow> bool" where
  "HasGroup grp c \<longleftrightarrow> fst (getGroupByName grp False c) \<noteq> None"

text \<open>\<open>Config.Group\<close> panics when the group does not exist; the group object behind
  the pointer is read from \<open>groups\<close>.\<close>

definition Group :: "string \<Rightarrow> ('p, 'v) Config \<Rightarrow> OptGroup outcome" where
  "Group grp c =
     (case fst (getGroupByName grp False c) of
        None \<Rightarrow> Panic (ErrNoGroup grp)
      | Some k \<Rightarrow> (case map_of (groups c) k of None \<Rightarrow> Panic ErrNilGroup | Some g \<Rightarrow> Return g))"

subsection \<open>Registering options\<close>

text \<open>
  \<open>Config.registerOpt\<close> and \<open>Config.registerStruct\<close>. The methods
  \<open>OptGroup.registerOpt\<close> and \<open>OptGroup.registerStruct\<close> they hand over to are outside
  the sources and are parameters: each receives the pointer to the group and the manager.
  \<open>asValidator\<close> is the type assertion \<open>s.(StructValidator)\<close>. A method call on a nil
  group pointer panics.
\<close>

definition registerOpt ::
  "(bool \<Rightarrow> Opt \<Rightarrow> string \<Rightarrow> ('p, 'v) Config \<Rightarrow> unit outcome \<times> ('p, 'v) Config)
     \<Rightarrow> string \<Rightarrow> bool \<Rightarrow> Opt \<Rightarrow> ('p, 'v) Config \<Rightarrow> unit outcome \<times> ('p, 'v) Config" where
  "registerOpt group_registerOpt grp isCli opt' c =
     (case panicIsParsed True c of
        Panic e \<Rightarrow> (Panic e, c)
      | Return _ \<Rightarrow>
          (case getGroupByName grp True c of
             (None, c') \<Rightarrow> (Panic ErrNilGroup, c')
           | (Some k, c') \<Rightarrow> group_registerOpt isCli opt' k c'))"

text \<open>
  Modelled from the spec: \<open>OptGroup.registerOpt\<close> of the missing file. The option is added
  to the group under its name, with no current value (and the zero set-priority of a new
  Go value); if the group already has an option of that name, the registration fails
  loudly unless re-registration is ignored (\<open>isPanic\<close> false), and then it is silently
  ignored. \<open>Config.RegisterOpt\<close> registers with it, not as a CLI option.
\<close>

definition OptGroup_registerOpt ::
  "bool \<Rightarrow> Opt \<Rightarrow> string \<Rightarrow> ('p, 'v) Config \<Rightarrow> unit outcome \<times> ('p, 'v) Config" where
  "OptGroup_registerOpt isCli opt' k c =
     (case map_of (groups c) k of
        None \<Rightarrow> (Panic ErrNilGroup, c)
      | Some g \<Rightarrow>
          (let n = Name (Opt_base opt') in
           if map_of (opts g) n \<noteq> None
           then (if isPanic c then (Panic (ErrReregister (group_name g) n), c) else (Return (), c))
           else (Return (),
                 c\<lparr>groups := AList.update k
                     (g\<lparr>opts := opts g @
                         [(n, \<lparr>opt = opt', cli = isCli, currentValue = None, setPriority = 0\<rparr>)]\<rparr>)
                     (groups c)\<rparr>)))"

definition RegisterOpt ::
  "string \<Rightarrow> Opt \<Rightarrow> ('p, 'v) Config \<Rightarrow> unit outcome \<times> ('p, 'v) Config" where
  "RegisterOpt grp opt' c = registerOpt OptGroup_registerOpt grp False opt' c"

definition registerStruct ::
  "('s \<Rightarrow> bool \<Rightarrow> string \<Rightarrow> ('p, 'v) Config \<Rightarrow> unit outcome \<times> ('p, 'v) Config)
     \<Rightarrow> ('s \<Rightarrow> 'v option)
     \<Rightarrow> string \<Rightarrow> 's \<Rightarrow> bool \<Rightarrow> ('p, 'v) Config \<Rightarrow> unit outcome \<times> ('p, 'v) Config" where
  "registerStruct group_registerStruct asValidator grp s isCli c =
     (case panicIsParsed True c of
        Panic e \<Rightarrow> (Panic e, c)
      | Return _ \<Rightarrow>
          (case getGroupByName (Trim grp (groupSep c)) True c of
             (None, c') \<Rightarrow> (Panic ErrNilGroup, c')
           | (Some k, c') \<Rightarrow>
               (case group_registerStruct s isCli k c' of
                  (Panic e, c'') \<Rightarrow> (Panic e, c'')
                | (Return _, c'') \<Rightarrow>
                    (case asValidator s of
                       Some v \<Rightarrow> (Return (), c''\<lparr>validators := validators c'' @ [v]\<rparr>)
                     | None \<Rightarrow> (Return (), c'')))))"

subsection \<open>Setting option values\<close>

definition SetOptValue ::
  "int \<Rightarrow> string \<Rightarrow> string \<Rightarrow> val \<Rightarrow> ('p, 'v) Config \<Rightarrow> error option \<times> ('p, 'v) Config" where
  "SetOptValue priority groupName' optName optValue c =
     (if priority < 0 then (Some ErrNegativePriority, c)
      else case fst (getGroupByName groupName' False c) of
             Some k \<Rightarrow>
               (case map_of (groups c) k of
                  None \<Rightarrow> (Some (ErrNoGroup groupName'), c)
                | Some g \<Rightarrow>
                    (case OptGroup_setOptValue priority optName optValue g of
                       (r, g') \<Rightarrow> (r, c\<lparr>groups := AList.update k g' (groups c)\<rparr>)))
           | None \<Rightarrow> (Some (ErrNoGroup groupName'), c))"

text \<open>What a reader of the registry sees: the group found under a name, and the current
  value stored for an option of it.\<close>

definition lookupGroup :: "string \<Rightarrow> ('p, 'v) Config \<Rightarrow> OptGroup option" where
  "lookupGroup grp c =
     (case fst (getGroupByName grp False c) of
        None \<Rightarrow> None
      | Some k \<Rightarrow> map_of (groups c) k)"

definition lookupOpt :: "string \<Rightarrow> string \<Rightarrow> ('p, 'v) Config \<Rightarrow> optEntry option" where
  "lookupOpt grp optName c =
     (case lookupGroup grp c of None \<Rightarrow> None | Some g \<Rightarrow> map_of (opts g) optName)"

definition storedValue :: "string \<Rightarrow> string \<Rightarrow> ('p, 'v) Config \<Rightarrow> val option" where
  "storedValue grp optName c =
     (case lookupOpt grp optName c of None \<Rightarrow> None | Some e \<Rightarrow> currentValue e)"

subsection \<open>Parsers\<close>

text \<open>\<open>sort.SliceStable\<close> with the comparison \<open>Priority() < Priority()\<close>: the list sorted by
  priority, elements of equal priority in their former order.\<close>

definition sortParsers :: "('p, 'v, 'c) Env \<Rightarrow> ('p, 'v) Config \<Rightarrow> ('p, 'v) Config" where
  "sortParsers I c = c\<lparr>parsers := sort_key (pPriority I) (parsers c)\<rparr>"

definition AddParser ::
  "('p, 'v, 'c) Env \<Rightarrow> 'p list \<Rightarrow> ('p, 'v) Config \<Rightarrow> unit outcome \<times> ('p, 'v) Config" where
  "AddParser I ps c =
     (case panicIsParsed True c of
        Panic e \<Rightarrow> (Panic e, c)
      | Return _ \<Rightarrow> (Return (), sortParsers I (c\<lparr>parsers := parsers c @ ps\<rparr>)))"

fun indexOf :: "('a \<Rightarrow> bool) \<Rightarrow> 'a list \<Rightarrow> nat option" where
  "indexOf P [] = None"
| "indexOf P (x # xs) = (if P x then Some 0 else map_option Suc (indexOf P xs))"

text \<open>\<open>RemoveParser\<close>: at the first parser of that name the new slice is filled with
  \<open>c.parsers[:i]\<close> and then with \<open>c.parsers[i:]\<close>.\<close>

definition RemoveParser ::
  "('p, 'v, 'c) Env \<Rightarrow> string \<Rightarrow> ('p, 'v) Config \<Rightarrow> 'p option outcome \<times> ('p, 'v) Config" where
  "RemoveParser I name c =
     (case panicIsParsed True c of
        Panic e \<Rightarrow> (Panic e, c)
      | Return _ \<Rightarrow>
          (case indexOf (\<lambda>p. pName I p = name) (parsers c) of
             Some i \<Rightarrow>
               (let ps = take i (parsers c) @ drop i (parsers c)
                in (Return (Some (parsers c ! i)), c\<lparr>parsers := ps\<rparr>))
           | None \<Rightarrow> (Return None, c)))"

definition GetParser :: "('p, 'v, 'c) Env \<Rightarrow> string \<Rightarrow> ('p, 'v) Config \<Rightarrow> 'p option" where
  "GetParser I name c = List.find (\<lambda>p. pName I p = name) (parsers c)"

definition HasParser :: "('p, 'v, 'c) Env \<Rightarrow> string \<Rightarrow> ('p, 'v) Config \<Rightarrow> bool" where
  "HasParser I name c \<longleftrightarrow> GetParser I name c \<noteq> None"

subsection \<open>Parse\<close>

text \<open>
  One loop \<open>for _, parser := range c.parsers\<close> over a hook. The range expression is
  evaluated once, when the loop starts, so the loop makes as many steps as the list had
  parsers then; the model walks the list as it was at that moment. The code reads each
  element from the backing array of the slice at the step that reaches it. The two agree
  as long as that array is left alone, and it is unless a hook calls \<open>AddParser\<close> during the
  loop and \<open>append\<close> finds spare capacity in the array, which \<open>sortParsers\<close> then rearranges
  under the running loop. The statements below on the order of the hook calls are made
  for hooks that leave the parser list as it is; the one run below in which a hook adds a
  parser reads the same elements in the code and in the model (a list of one parser, the
  added one sorting after it).
  The result is the failing parser with its error (if any), the manager, and the parsers
  whose hook has been called, in the order of the calls.
\<close>

fun runHooks ::
  "('p \<Rightarrow> 'c \<Rightarrow> error option \<times> 'c) \<Rightarrow> 'p list \<Rightarrow> 'c \<Rightarrow> ('p \<times> error) option \<times> 'c \<times> 'p list" where
  "runHooks h [] c = (None, c, [])"
| "runHooks h (p # ps) c =
     (case h p c of
        (Some e, c') \<Rightarrow> (Some (p, e), c', [p])
      | (None, c') \<Rightarrow> (case runHooks h ps c' of (r, c'', called) \<Rightarrow> (r, c'', p # called)))"

fun checkRequiredOptions :: "(string \<times> OptGroup) list \<Rightarrow> error option" where
  "checkRequiredOptions [] = None"
| "checkRequiredOptions ((k, g) # gs) =
     (case OptGroup_checkRequiredOption g of
        Some e \<Rightarrow> Some e
      | None \<Rightarrow> checkRequiredOptions gs)"

fun runValidators :: "('v \<Rightarrow> error option) \<Rightarrow> 'v list \<Rightarrow> error option" where
  "runValidators validate [] = None"
| "runValidators validate (v # vs) =
     (case validate v of Some e \<Rightarrow> Some e | None \<Rightarrow> runValidators validate vs)"

datatype phase = PreP | ParseP | PostP

text \<open>The start of \<open>Parse\<close> up to the end of the first loop: the default group is
  ensured, \<open>cliArgs\<close> is set (\<open>osArgs\<close> is \<open>os.Args[1:]\<close>), and the \<open>Pre\<close> hooks run.\<close>

definition Preparing ::
  "('p, 'v, ('p, 'v) Config) Env \<Rightarrow> string list \<Rightarrow> string list option \<Rightarrow> ('p, 'v) Config
     \<Rightarrow> ('p \<times> error) option \<times> ('p, 'v) Config \<times> 'p list" where
  "Preparing I osArgs args' c =
     (let c1 = snd (getGroupByName (groupName c) True c);
          c2 = c1\<lparr>cliArgs := (case args' of None \<Rightarrow> osArgs | Some a \<Rightarrow> a)\<rparr>
      in runHooks (Pre I) (parsers c2) c2)"

text \<open>
  The three passes of \<open>Parse\<close> over the parsers: the \<open>Pre\<close> hooks, the assignment
  \<open>c.parsed = true\<close>, the \<open>Parse\<close> hooks (an error is wrapped with the parser's name) and
  the \<open>Post\<close> hooks. The result is the error the passes end \<open>Parse\<close> with (if any), the
  manager, and the hook calls made, each with its phase, in the order of the calls.
\<close>

definition runParsers ::
  "('p, 'v, ('p, 'v) Config) Env \<Rightarrow> string list \<Rightarrow> string list option \<Rightarrow> ('p, 'v) Config
     \<Rightarrow> error option \<times> ('p, 'v) Config \<times> (phase \<times> 'p) list" where
  "runParsers I osArgs args' c =
     (case Preparing I osArgs args' c of
        (Some (p, e), c3, t1) \<Rightarrow> (Some e, c3, map (Pair PreP) t1)
      | (None, c3, t1) \<Rightarrow>
          (let c4 = c3\<lparr>parsed := True\<rparr> in
           case runHooks (ParseHook I) (parsers c4) c4 of
             (Some (p, e), c5, t2) \<Rightarrow>
               (Some (ErrParserFailed (pName I p) e), c5,
                map (Pair PreP) t1 @ map (Pair ParseP) t2)
           | (None, c5, t2) \<Rightarrow>
               (case runHooks (Post I) (parsers c5) c5 of
                  (Some (p, e), c6, t3) \<Rightarrow>
                    (Some e, c6,
                     map (Pair PreP) t1 @ map (Pair ParseP) t2 @ map (Pair PostP) t3)
                | (None, c6, t3) \<Rightarrow>
                    (None, c6,
                     map (Pair PreP) t1 @ map (Pair ParseP) t2 @ map (Pair PostP) t3))))"

text \<open>
  \<open>Config.Parse\<close>: the check of the flag, the passes over the parsers, the check of the
  required options of every group, and the validators. The result is what the call
  returns or panics with, the manager afterwards, and the hook calls made.
\<close>

definition Parse ::
  "('p, 'v, ('p, 'v) Config) Env \<Rightarrow> string list \<Rightarrow> string list option \<Rightarrow> ('p, 'v) Config
     \<Rightarrow> error option outcome \<times> ('p, 'v) Config \<times> (phase \<times> 'p) list" where
  "Parse I osArgs args' c =
     (case panicIsParsed True c of
        Panic e \<Rightarrow> (Panic e, c, [])
      | Return _ \<Rightarrow>
          (case runParsers I osArgs args' c of
             (Some e, c6, calls) \<Rightarrow> (Return (Some e), c6, calls)
           | (None, c6, calls) \<Rightarrow>
               (case checkRequiredOptions (groups c6) of
                  Some e \<Rightarrow> (Return (Some e), c6, calls)
                | None \<Rightarrow> (Return (runValidators (Validate I) (validators c6)), c6, calls))))"

section \<open>A scripted parser\<close>

text \<open>
  A parser for running the manager on concrete inputs: its \<open>Pre\<close> and \<open>Post\<close> hooks
  return a fixed result, and its \<open>Parse\<close> hook writes a list of option values through
  \<open>SetOptValue\<close> with the parser's own priority, returns the first error of a write, and
  otherwise a fixed result. A validator is given by the result it returns.
\<close>

datatype testParser =
  TestParser (tp_name: string) (tp_priority: int) (tp_pre: "error option")
    (tp_writes: "(string \<times> string \<times> val) list") (tp_parse: "error option")
    (tp_post: "error option")

fun tp_write ::
  "int \<Rightarrow> (string \<times> string \<times> val) list \<Rightarrow> (testParser, error option) Config
     \<Rightarrow> error option \<times> (testParser, error option) Config" where
  "tp_write priority [] c = (None, c)"
| "tp_write priority ((g, n, v) # ws) c =
     (case SetOptValue priority g n v c of
        (Some e, c') \<Rightarrow> (Some e, c')
      | (None, c') \<Rightarrow> tp_write priority ws c')"

definition testEnv ::
  "(testParser, error option, (testParser, error option) Config) Env" where
  "testEnv =
     \<lparr>pName = tp_name, pPriority = tp_priority,
      Pre = (\<lambda>p c. (tp_pre p, c)),
      ParseHook = (\<lambda>p c. case tp_write (tp_priority p) (tp_writes p) c of
                             (Some e, c') \<Rightarrow> (Some e, c')
                           | (None, c') \<Rightarrow> (tp_parse p, c')),
      Post = (\<lambda>p c. (tp_post p, c)),
      Validate = (\<lambda>v. v)\<rparr>"

section \<open>Predicates used in the statements\<close>

text \<open>Two managers that differ at most in their groups.\<close>

definition sameSettings :: "('p, 'v) Config \<Rightarrow> ('p, 'v) Config \<Rightarrow> bool" where
  "sameSettings s c \<longleftrightarrow> s\<lparr>groups := []\<rparr> = c\<lparr>groups := []\<rparr>"

text \<open>
  A hook leaves a field of the manager as it found it. Through the manager's own
  operations a hook cannot clear the \<open>parsed\<close> flag, and cannot change the parser list once
  the flag is set.
\<close>

definition hookKeeps :: "('c \<Rightarrow> 'a) \<Rightarrow> ('p \<Rightarrow> 'c \<Rightarrow> error option \<times> 'c) \<Rightarrow> bool" where
  "hookKeeps f h \<longleftrightarrow> (\<forall>p c. f (snd (h p c)) = f c)"

definition keepsParsers :: "('p, 'v, ('p, 'v) Config) Env \<Rightarrow> bool" where
  "keepsParsers I \<longleftrightarrow>
     hookKeeps parsers (Pre I) \<and> hookKeeps parsers (ParseHook I) \<and> hookKeeps parsers (Post I)"

definition keepsParsed :: "('p, 'v, ('p, 'v) Config) Env \<Rightarrow> bool" where
  "keepsParsed I \<longleftrightarrow>
     hookKeeps parsed (Pre I) \<and> hookKeeps parsed (ParseHook I) \<and> hookKeeps parsed (Post I)"

text \<open>The manager holds a group under the key \<open>k\<close>.\<close>

definition hasKey :: "string \<Rightarrow> ('p, 'v) Config \<Rightarrow> bool" where
  "hasKey k c \<longleftrightarrow> map_of (groups c) k \<noteq> None"

text \<open>The hook calls of a complete run over the parsers \<open>ps\<close>: every \<open>Pre\<close>, then every
  \<open>Parse\<close>, then every \<open>Post\<close>, each in the order of the list.\<close>

definition hookOrder :: "'p list \<Rightarrow> (phase \<times> 'p) list" where
  "hookOrder ps = map (Pair PreP) ps @ map (Pair ParseP) ps @ map (Pair PostP) ps"

text \<open>Two scripted parsers that write nothing and never fail.\<close>

definition tpA :: testParser where
  "tpA = TestParser ''file'' 5 None [] None None"


text \<open>A scripted parser whose \<open>Parse\<close> hook fails, and one whose \<open>Pre\<close> hook fails.\<close>

definition tpFailParse :: testParser where
  "tpFailParse = TestParser ''cli'' 10 None [] (Some (ErrExternal ''bad'')) None"

definition tpFailPre :: testParser where
  "tpFailPre = TestParser ''cli'' 10 (Some (ErrExternal ''bad'')) [] None None"

text \<open>
  A manager with one registered option: the required string option host, without a
  default, in the default group; and a scripted parser of priority 0 that writes it.
\<close>

definition optHost :: Opt where
  "optHost = strOpt \<lparr>Name = ''host'', Help = [], Short = [], Required = True,
                      Default = None, otype = stringType\<rparr>"

definition hostEntry :: optEntry where
  "hostEntry = \<lparr>opt = optHost, cli = False, currentValue = None, setPriority = 0\<rparr>"

definition cHost :: "(testParser, error option) Config" where
  "cHost = snd (RegisterOpt [] optHost NewConfig)"

definition tpWrite0 :: testParser where
  "tpWrite0 = TestParser ''env'' 0 None [([], ''host'', VString ''h'')] None None"

text \<open>
  The claim's words on the order of the hooks, written out: the hooks of a phase applied
  one after the other in the order of a list, each to the manager the one before has
  left; every hook of the list returning no error on the manager it is applied to; and
  the hook of the parser at position \<open>i\<close> being the first to return an error, \<open>e\<close>.
\<close>

definition applyHooks :: "('p \<Rightarrow> 'c \<Rightarrow> error option \<times> 'c) \<Rightarrow> 'p list \<Rightarrow> 'c \<Rightarrow> 'c" where
  "applyHooks h ps c = foldl (\<lambda>s p. snd (h p s)) c ps"

fun hooksOk :: "('p \<Rightarrow> 'c \<Rightarrow> error option \<times> 'c) \<Rightarrow> 'p list \<Rightarrow> 'c \<Rightarrow> bool" where
  "hooksOk h [] c = True"
| "hooksOk h (p # ps) c = (fst (h p c) = None \<and> hooksOk h ps (snd (h p c)))"

definition firstFails ::
  "('p \<Rightarrow> 'c \<Rightarrow> error option \<times> 'c) \<Rightarrow> 'p list \<Rightarrow> nat \<Rightarrow> error \<Rightarrow> 'c \<Rightarrow> bool" where
  "firstFails h ps i e c \<longleftrightarrow>
     i < length ps \<and> hooksOk h (take i ps) c
     \<and> fst (h (ps ! i) (applyHooks h (take i ps) c)) = Some e"

text \<open>
  The manager on which \<open>Parse\<close> calls the first hook (the default group ensured, \<open>cliArgs\<close>
  set), and the managers the claim's order of the calls leads to: after every \<open>Pre\<close> hook
  and the assignment of the flag, after every \<open>Parse\<close> hook, and after every \<open>Post\<close> hook,
  each phase over the parser list of the manager \<open>Parse\<close> was called on.
\<close>

definition started :: "string list \<Rightarrow> string list option \<Rightarrow> ('p, 'v) Config \<Rightarrow> ('p, 'v) Config" where
  "started osArgs args' c =
     (snd (getGroupByName (groupName c) True c))
       \<lparr>cliArgs := (case args' of None \<Rightarrow> osArgs | Some a \<Rightarrow> a)\<rparr>"

definition preDone ::
  "('p, 'v, ('p, 'v) Config) Env \<Rightarrow> string list \<Rightarrow> string list option \<Rightarrow> ('p, 'v) Config
     \<Rightarrow> ('p, 'v) Config" where
  "preDone I osArgs args' c =
     (applyHooks (Pre I) (parsers c) (started osArgs args' c))\<lparr>parsed := True\<rparr>"

definition parseDone ::
  "('p, 'v, ('p, 'v) Config) Env \<Rightarrow> string list \<Rightarrow> string list option \<Rightarrow> ('p, 'v) Config
     \<Rightarrow> ('p, 'v) Config" where
  "parseDone I osArgs args' c = applyHooks (ParseHook I) (parsers c) (preDone I osArgs args' c)"






definition cFail :: "(testParser, error option) Config" where
  "cFail = snd (AddParser testEnv [tpFailParse] NewConfig)"

text \<open>The manager with the option host and the scripted parser that writes it, and the
  groups once the value is written.\<close>

definition cHostW :: "(testParser, error option) Config" where
  "cHostW = snd (AddParser testEnv [tpWrite0] cHost)"

definition hostWritten :: "(string \<times> OptGroup) list" where
  "hostWritten = [(''DEFAULT'',
      \<lparr>group_name = ''DEFAULT'', group_fullName = ''DEFAULT'',
       opts = [(''host'', hostEntry\<lparr>currentValue := Some (VString ''h''), setPriority := 0\<rparr>)]\<rparr>)]"

text \<open>The option \<open>n\<close> of the group found under the name \<open>g\<close> holds a value.\<close>

definition hasValue :: "string \<Rightarrow> string \<Rightarrow> ('p, 'v) Config \<Rightarrow> bool" where
  "hasValue g n c \<longleftrightarrow> storedValue g n c \<noteq> None"

text \<open>
  The source \<open>p\<close> writes the option: whenever its \<open>Parse\<close> hook returns without an error,
  the option holds a value. And no \<open>Parse\<close> or \<open>Post\<close> hook takes the value of the option
  away; a hook that changes option values only through \<open>SetOptValue\<close> cannot, since a write
  stores a value or leaves the stored one.
\<close>

definition writesOpt :: "('p, 'v, ('p, 'v) Config) Env \<Rightarrow> 'p \<Rightarrow> string \<Rightarrow> string \<Rightarrow> bool" where
  "writesOpt I p g n \<longleftrightarrow>
     (\<forall>c. fst (ParseHook I p c) = None \<longrightarrow> hasValue g n (snd (ParseHook I p c)))"

definition keepsValue :: "('p, 'v, ('p, 'v) Config) Env \<Rightarrow> string \<Rightarrow> string \<Rightarrow> bool" where
  "keepsValue I g n \<longleftrightarrow>
     (\<forall>p c. hasValue g n c \<longrightarrow>
        hasValue g n (snd (ParseHook I p c)) \<and> hasValue g n (snd (Post I p c)))"

text \<open>
  The association lists stand for Go maps: a key occurs once in \<open>groups\<close>, an option name
  once in the options of a group, and a group is stored under its own name, as
  \<open>newOptGroup\<close> stores it.
\<close>

definition wfGroups :: "('p, 'v) Config \<Rightarrow> bool" where
  "wfGroups c \<longleftrightarrow>
     distinct (map fst (groups c))
     \<and> (\<forall>(k, grp) \<in> set (groups c). group_name grp = k \<and> distinct (map fst (opts grp)))"

text \<open>A manager whose default group is named a, and one whose separator is the slash.\<close>

definition cDefaultA :: "(testParser, error option) Config" where
  "cDefaultA = snd (SetDefaultGroupName ''a'' NewConfig)"

definition cSlash :: "(testParser, error option) Config" where
  "cSlash = snd (SetGroupSeparator ''/'' NewConfig)"

section \<open>Basic facts\<close>

lemma NewConfig_eq:
  "NewConfig = \<lparr>parsed = False, isRequired = True, isDebug = False, isPanic = True,
     isZero = True, args = [], cliArgs = [], parsers = [], groupSep = ''.'',
     groupName = ''DEFAULT'', groupPrefix = ''DEFAULT.'', groups = [], validators = []\<rparr>"
  by (simp add: NewConfig_def SetGroupSeparator_def panicIsParsed_def DefaultGroupName_def)

lemma Split_DEFAULT: "Split ''DEFAULT'' ''.'' = [''DEFAULT'']"
  by (simp add: Split.simps)

lemma sameSettings_refl: "sameSettings c c"
  by (simp add: sameSettings_def)

lemma newOptGroup_sameSettings: "sameSettings s c \<Longrightarrow> sameSettings (newOptGroup n f s) c"
  by (simp add: newOptGroup_def sameSettings_def split: option.splits)

lemma fold_inv:
  assumes "P c" and "\<And>x s. P s \<Longrightarrow> P (step x s)"
  shows "P (fold step xs c)"
  using assms(1) by (induction xs arbitrary: c) (simp_all add: assms(2))

lemma getGroupByName_sameSettings: "sameSettings (snd (getGroupByName n new c)) c"
proof -
  have "sameSettings (fold (\<lambda>(i, gname) c1.
            let fullName = Join (take (i + 1) gs) sep
            in newOptGroup gname fullName (newOptGroup fullName fullName c1)) xs c) c"
    for gs sep xs
    by (rule fold_inv[where P="\<lambda>s. sameSettings s c"])
       (simp_all add: split_def Let_def newOptGroup_sameSettings sameSettings_refl)
  then show ?thesis
    by (simp add: getGroupByName_def Let_def newOptGroup_sameSettings sameSettings_refl)
qed

lemma sameSettings_fields:
  assumes "sameSettings s c"
  shows "parsed s = parsed c" "parsers s = parsers c" "validators s = validators c"
    "groupSep s = groupSep c" "groupName s = groupName c" "groupPrefix s = groupPrefix c"
proof -
  from assms have e: "s\<lparr>groups := []\<rparr> = c\<lparr>groups := []\<rparr>"
    by (simp add: sameSettings_def)
  from arg_cong[OF e, of parsed] show "parsed s = parsed c" by simp
  from arg_cong[OF e, of parsers] show "parsers s = parsers c" by simp
  from arg_cong[OF e, of validators] show "validators s = validators c" by simp
  from arg_cong[OF e, of groupSep] show "groupSep s = groupSep c" by simp
  from arg_cong[OF e, of groupName] show "groupName s = groupName c" by simp
  from arg_cong[OF e, of groupPrefix] show "groupPrefix s = groupPrefix c" by simp
qed

lemma sameSettings_eq: "sameSettings s c \<Longrightarrow> s = c\<lparr>groups := groups s\<rparr>"
proof -
  assume "sameSettings s c"
  then have e: "s\<lparr>groups := []\<rparr> = c\<lparr>groups := []\<rparr>"
    by (simp add: sameSettings_def)
  from arg_cong[OF e, of "\<lambda>r. r\<lparr>groups := groups s\<rparr>"]
  show "s = c\<lparr>groups := groups s\<rparr>" by simp
qed

lemmas getGroupByName_fields = sameSettings_fields[OF getGroupByName_sameSettings]

lemma runHooks_keeps:
  assumes "hookKeeps f h"
  shows "f (fst (snd (runHooks h ps c))) = f c"
proof (induction ps arbitrary: c)
  case Nil
  show ?case by simp
next
  case (Cons p ps)
  obtain e c' where h: "h p c = (e, c')" by (cases "h p c")
  from assms have "f (snd (h p c)) = f c" by (simp add: hookKeeps_def)
  with h have k: "f c' = f c" by simp
  show ?case
  proof (cases e)
    case None
    with h k Cons[of c'] show ?thesis by (auto split: prod.splits)
  next
    case (Some a)
    with h k show ?thesis by simp
  qed
qed



lemma tp_write_parsed: "parsed (snd (tp_write n ws c)) = parsed c"
  by (induction n ws c rule: tp_write.induct)
     (auto simp: SetOptValue_def split: option.splits prod.splits if_splits)


lemma keepsParsed_testEnv: "keepsParsed testEnv"
  using tp_write_parsed
  by (auto simp: keepsParsed_def hookKeeps_def testEnv_def split: prod.splits option.splits)
     (metis snd_conv)+

section \<open>Options built by NewIntOpt\<close>

text \<open>
  C9. The claim is that \<open>Parse\<close> of an option built by \<open>NewIntOpt\<close> goes to the integer
  conversion. In the code \<open>NewIntOpt\<close> builds its option with the kind \<open>stringType\<close>:
  \<open>Parse\<close> of such an option goes to \<open>ToString\<close> whatever \<open>ToInt64\<close> is, so with a
  \<open>ToString\<close> that accepts every text both the non-numeric text abc and the numeric text
  42 come back as string values with no error; and \<open>NewIntOpt\<close> with an int default
  panics in the type assertion of \<open>GetDefault\<close>.
\<close>

theorem NewIntOpt_Parse_converts_to_string:
  "(case NewIntOpt short name None required help of
      Panic e \<Rightarrow> False
    | Return opt' \<Rightarrow>
        Opt_Parse (\<lambda>s. Inr s) ToInt64 opt' ''abc'' = Return (Inr (VString ''abc''))
      \<and> Opt_Parse (\<lambda>s. Inr s) ToInt64 opt' ''42'' = Return (Inr (VString ''42''))
      \<and> Opt_Parse ToString ToInt64 opt' data
          = Return (case ToString data of Inl e \<Rightarrow> Inl e | Inr s \<Rightarrow> Inr (VString s)))
   \<and> NewIntOpt short name (Some (VInt n)) required help = Panic ErrTypeAssertion"
  by (simp add: NewIntOpt_def newBaseOpt_def GetDefault_def Opt_Parse_def baseOpt_Parse_def)

section \<open>Removing a parser\<close>

lemma indexOf_find: "indexOf P xs = Some i \<Longrightarrow> List.find P xs = Some (xs ! i)"
  by (induction xs arbitrary: i) (auto split: if_splits)

lemma RemoveParser_state: "snd (RemoveParser I name c) = c"
  by (simp add: RemoveParser_def panicIsParsed_def split: option.splits)

lemma RemoveParser_found:
  "fst (RemoveParser I name c) = Return (Some p) \<Longrightarrow> GetParser I name c = Some p"
  by (auto simp: RemoveParser_def panicIsParsed_def GetParser_def indexOf_find
      split: option.splits if_splits)

text \<open>
  C10. The claim is that after \<open>RemoveParser\<close> has returned a parser the list holds no
  parser of that name. In the code the new slice is \<open>c.parsers[:i]\<close> followed by
  \<open>c.parsers[i:]\<close>, which is the whole list: \<open>RemoveParser\<close> never changes the manager.
  With the single parser cli registered, \<open>RemoveParser\<close> returns it, and afterwards
  \<open>GetParser\<close> still finds it and \<open>HasParser\<close> is true.
\<close>

theorem RemoveParser_removes_nothing:
  "snd (RemoveParser I name c) = c
   \<and> (let p = TestParser ''cli'' 0 None [] None None;
           c0 = snd (AddParser testEnv [p] NewConfig);
           r = RemoveParser testEnv ''cli'' c0
       in fst r = Return (Some p) \<and> parsers (snd r) = [p]
          \<and> GetParser testEnv ''cli'' (snd r) = Some p \<and> HasParser testEnv ''cli'' (snd r))"
proof -
  have "snd (RemoveParser I name c) = c"
    by (rule RemoveParser_state)
  moreover have "parsers (snd (AddParser testEnv [TestParser ''cli'' 0 None [] None None]
      (NewConfig :: (testParser, error option) Config))) = [TestParser ''cli'' 0 None [] None None]"
    by (simp add: AddParser_def NewConfig_def SetGroupSeparator_def panicIsParsed_def
        sortParsers_def)
  moreover have "\<not> parsed (snd (AddParser testEnv [TestParser ''cli'' 0 None [] None None]
      (NewConfig :: (testParser, error option) Config)))"
    by (simp add: AddParser_def NewConfig_def SetGroupSeparator_def panicIsParsed_def
        sortParsers_def)
  ultimately show ?thesis
    by (simp add: Let_def RemoveParser_def panicIsParsed_def GetParser_def HasParser_def
        testEnv_def)
qed

section \<open>The order of the parsers\<close>





section \<open>The parsed flag\<close>

lemma Parse_parsed:
  assumes "\<not> parsed c" "keepsParsed I" "Parse I os a c = (r, c', tr)"
    "Preparing I os a c = (r1, c3, t1)"
  shows "(r1 = None \<longrightarrow> parsed c') \<and> (\<forall>p e. r1 = Some (p, e) \<longrightarrow> r = Return (Some e) \<and> \<not> parsed c')"
proof -
  let ?c2 = "(snd (getGroupByName (groupName c) True c))
               \<lparr>cliArgs := (case a of None \<Rightarrow> os | Some a \<Rightarrow> a)\<rparr>"
  have P': "runHooks (Pre I) (parsers ?c2) ?c2 = (r1, c3, t1)"
    using assms(4) by (simp add: Preparing_def Let_def)
  have c3: "parsed c3 = parsed c"
    using runHooks_keeps[of parsed "Pre I" "parsers ?c2" ?c2] assms(2) P'
    by (simp add: keepsParsed_def getGroupByName_fields)
  show ?thesis
  proof (cases r1)
    case (Some pe)
    obtain p e where pe: "pe = (p, e)" by (cases pe)
    from assms(1,3,4) Some pe have "c' = c3" "r = Return (Some e)"
      by (simp_all add: Parse_def runParsers_def panicIsParsed_def)
    with c3 assms(1) Some pe show ?thesis by simp
  next
    case None
    let ?c4 = "c3\<lparr>parsed := True\<rparr>"
    obtain r2 c5 t2 where Q: "runHooks (ParseHook I) (parsers ?c4) ?c4 = (r2, c5, t2)"
      by (cases "runHooks (ParseHook I) (parsers ?c4) ?c4") auto
    have c5: "parsed c5"
      using runHooks_keeps[of parsed "ParseHook I" "parsers ?c4" ?c4] assms(2) Q
      by (simp add: keepsParsed_def)
    obtain r3 c6 t3 where R: "runHooks (Post I) (parsers c5) c5 = (r3, c6, t3)"
      by (cases "runHooks (Post I) (parsers c5) c5") auto
    have c6: "parsed c6"
      using runHooks_keeps[of parsed "Post I" "parsers c5" c5] assms(2) R c5
      by (simp add: keepsParsed_def)
    from assms(1,3,4) None Q R have "c' = c5 \<or> c' = c6"
      by (auto simp: Parse_def runParsers_def panicIsParsed_def Let_def split: option.splits prod.splits)
    with c5 c6 None show ?thesis by auto
  qed
qed

subsection \<open>Runs on concrete managers\<close>

lemma AddParser1: "snd (AddParser testEnv [p] NewConfig) = NewConfig\<lparr>parsers := [p]\<rparr>"
  by (simp add: AddParser_def panicIsParsed_def sortParsers_def NewConfig_eq)

lemma ensureDefault: "getGroupByName ''DEFAULT'' True (NewConfig\<lparr>parsers := ps\<rparr>)
   = (Some ''DEFAULT'', NewConfig\<lparr>parsers := ps, groups := [(''DEFAULT'', OptGroup_new ''DEFAULT'' ''DEFAULT'')]\<rparr>)"
  by (simp add: NewConfig_eq getGroupByName_def TrimPrefix_def Split_DEFAULT newOptGroup_def groupPtr_def Let_def)

lemma Parse_failParse: "Parse testEnv [] None (NewConfig\<lparr>parsers := [tpFailParse]\<rparr>) =
   (Return (Some (ErrParserFailed ''cli'' (ErrExternal ''bad''))),
    NewConfig\<lparr>parsers := [tpFailParse], groups := [(''DEFAULT'', OptGroup_new ''DEFAULT'' ''DEFAULT'')], parsed := True\<rparr>,
    [(PreP, tpFailParse), (ParseP, tpFailParse)])"
proof -
  have g: "groupName (NewConfig\<lparr>parsers := [tpFailParse]\<rparr>) = ''DEFAULT''" by (simp add: NewConfig_eq)
  show ?thesis
    by (simp add: Parse_def runParsers_def Preparing_def g ensureDefault panicIsParsed_def Let_def)
       (simp add: NewConfig_eq testEnv_def tpFailParse_def)
qed

lemma Preparing_failPre: "Preparing testEnv [] None (NewConfig\<lparr>parsers := [tpFailPre]\<rparr>) =
   (Some (tpFailPre, ErrExternal ''bad''),
    NewConfig\<lparr>parsers := [tpFailPre], groups := [(''DEFAULT'', OptGroup_new ''DEFAULT'' ''DEFAULT'')]\<rparr>,
    [tpFailPre])"
proof -
  have g: "groupName (NewConfig\<lparr>parsers := [tpFailPre]\<rparr>) = ''DEFAULT''" by (simp add: NewConfig_eq)
  show ?thesis
    by (simp add: Preparing_def g ensureDefault Let_def)
       (simp add: NewConfig_eq testEnv_def tpFailPre_def)
qed

lemma Parse_failPre: "Parse testEnv [] None (NewConfig\<lparr>parsers := [tpFailPre]\<rparr>) =
   (Return (Some (ErrExternal ''bad'')),
    NewConfig\<lparr>parsers := [tpFailPre], groups := [(''DEFAULT'', OptGroup_new ''DEFAULT'' ''DEFAULT'')]\<rparr>,
    [(PreP, tpFailPre)])"
  by (simp add: Parse_def runParsers_def Preparing_failPre panicIsParsed_def) (simp add: NewConfig_eq)

lemma Split_x: "Split ''x'' ''.'' = [''x'']"
  by (simp add: Split.simps)

lemma Parse_empty: "Parse testEnv [] None NewConfig =
   (Return None, NewConfig\<lparr>groups := [(''DEFAULT'', OptGroup_new ''DEFAULT'' ''DEFAULT'')], parsed := True\<rparr>, [])"
  by (simp add: Parse_def runParsers_def Preparing_def panicIsParsed_def NewConfig_eq testEnv_def
      getGroupByName_def TrimPrefix_def Split_DEFAULT newOptGroup_def groupPtr_def
      OptGroup_new_def OptGroup_checkRequiredOption_def Let_def)

subsection \<open>Errors of Parse and the parsed flag\<close>

text \<open>
  C2, as claimed, is false: the claim is that after any error of \<open>Parse\<close> the manager is
  unparsed and \<open>Parse\<close> may be called again. With one parser whose \<open>Parse\<close> hook fails,
  \<open>Parse\<close> returns the wrapped error, \<open>Parsed\<close> is true afterwards, and a second call of
  \<open>Parse\<close> panics with \<open>ErrParsed\<close>.
\<close>

theorem Parse_error_unparsed_counterexample:
  "(let c0 = snd (AddParser testEnv [tpFailParse] NewConfig);
        r = Parse testEnv [] None c0
    in fst r = Return (Some (ErrParserFailed ''cli'' (ErrExternal ''bad'')))
       \<and> Parsed (fst (snd r))
       \<and> fst (Parse testEnv [] None (fst (snd r))) = Panic ErrParsed)"
  by (simp add: AddParser1 Parse_failParse Let_def Parsed_def)
     (simp add: Parse_def runParsers_def panicIsParsed_def)

text \<open>
  C2, amended. \<open>Parse\<close> sets the flag between the \<open>Pre\<close> loop and the \<open>Parse\<close> loop. On a
  manager that is not parsed, with hooks that leave the flag alone: if a \<open>Pre\<close> hook
  fails, \<open>Parse\<close> returns that error, \<open>Parsed\<close> is false afterwards, and a further call
  of \<open>Parse\<close> does not panic; if no \<open>Pre\<close> hook fails, then whatever \<open>Parse\<close> returns (an
  error of a \<open>Parse\<close> or \<open>Post\<close> hook, a missing required option, a failing validator,
  or success) \<open>Parsed\<close> is true afterwards and a further call of \<open>Parse\<close> panics with
  \<open>ErrParsed\<close>, leaving the manager as it is.
\<close>

theorem Parse_error_unparsed_only_before_parsing:
  assumes "\<not> parsed c" and "keepsParsed I"
  shows "case Parse I os a c of (r, c', tr) \<Rightarrow>
           (case fst (Preparing I os a c) of
              Some (p, e) \<Rightarrow>
                r = Return (Some e) \<and> \<not> Parsed c' \<and> (\<forall>x. fst (Parse I os' a' c') \<noteq> Panic x)
            | None \<Rightarrow> Parsed c' \<and> Parse I os' a' c' = (Panic ErrParsed, c', []))"
proof -
  obtain r c' tr where P: "Parse I os a c = (r, c', tr)" by (cases "Parse I os a c")
  obtain r1 c3 t1 where Q: "Preparing I os a c = (r1, c3, t1)" by (cases "Preparing I os a c")
  note pp = Parse_parsed[OF assms P Q]
  show ?thesis
  proof (cases r1)
    case None
    with pp have "parsed c'" by simp
    then show ?thesis using P Q None
      by (simp add: Parsed_def Parse_def panicIsParsed_def)
  next
    case (Some pe)
    obtain p e where pe: "pe = (p, e)" by (cases pe)
    with pp Some have *: "r = Return (Some e)" "\<not> parsed c'" by auto
    have "fst (Parse I os' a' c') \<noteq> Panic x" for x
      using *(2) by (auto simp: Parse_def runParsers_def panicIsParsed_def Let_def split: prod.splits option.splits)
    with * P Q Some pe show ?thesis by (simp add: Parsed_def)
  qed
qed

theorem Parse_error_unparsed_only_before_parsing_witness:
  "\<not> parsed (snd (AddParser testEnv [tpFailPre] NewConfig)) \<and> keepsParsed testEnv
   \<and> fst (Parse testEnv [] None (snd (AddParser testEnv [tpFailPre] NewConfig))) = Return (Some (ErrExternal ''bad''))
   \<and> \<not> Parsed (fst (snd (Parse testEnv [] None (snd (AddParser testEnv [tpFailPre] NewConfig)))))
   \<and> (\<forall>x. fst (Parse testEnv [] None (fst (snd (Parse testEnv [] None (snd (AddParser testEnv [tpFailPre] NewConfig)))))) \<noteq> Panic x)"
proof -
  let ?c = "snd (AddParser testEnv [tpFailPre] NewConfig)"
  have np: "\<not> parsed ?c" by (simp add: AddParser1) (simp add: NewConfig_eq)
  show ?thesis
    using Parse_error_unparsed_only_before_parsing[OF np keepsParsed_testEnv, of "[]" None "[]" None]
      np keepsParsed_testEnv
    by (simp add: AddParser1 Preparing_failPre Parse_failPre)
qed

subsection \<open>Structure changes after parsing\<close>

text \<open>
  C6, as claimed, is false: the claim is that structure changes fail once \<open>Parse\<close> has
  begun. With one parser whose \<open>Pre\<close> hook fails, \<open>Parse\<close> begins and returns the error;
  afterwards \<open>NewGroup\<close> returns and creates the group x, and \<open>AddParser\<close> adds a parser.
\<close>

theorem structure_frozen_counterexample:
  "(let c0 = snd (AddParser testEnv [tpFailPre] NewConfig);
        c1 = fst (snd (Parse testEnv [] None c0))
    in fst (Parse testEnv [] None c0) = Return (Some (ErrExternal ''bad''))
       \<and> \<not> HasGroup ''x'' c1
       \<and> fst (NewGroup ''x'' c1) = Return (Some ''x'')
       \<and> HasGroup ''x'' (snd (NewGroup ''x'' c1))
       \<and> parsers (snd (AddParser testEnv [tpA] c1)) = [tpA, tpFailPre])"
  by (simp add: AddParser1 Parse_failPre Let_def)
     (simp add: NewConfig_eq HasGroup_def NewGroup_def getGroupByName_def getGroupName_def
        panicIsParsed_def TrimPrefix_def Split_x newOptGroup_def groupPtr_def Let_def
        AddParser_def sortParsers_def testEnv_def tpA_def tpFailPre_def OptGroup_new_def)

text \<open>
  C6, amended. \<open>Parse\<close> sets the flag only when every \<open>Pre\<close> hook has succeeded, and leaves
  it clear when one fails (hooks leaving the flag alone). On a manager \<open>c\<close> whose flag is
  set, \<open>NewGroup\<close>, the registration of an option or of a struct, \<open>AddParser\<close>,
  \<open>RemoveParser\<close> and \<open>SetDefaultGroupName\<close> panic with \<open>ErrParsed\<close>, and
  \<open>SetGroupSeparator\<close> panics with \<open>ErrParsed\<close>, or with its own error when the separator
  is empty; each leaves the manager unchanged. The flag stays set: \<open>Parse\<close> panics without
  a change, and \<open>SetOptValue\<close> keeps it.
\<close>

theorem structure_frozen_once_parsed:
  assumes "parsed c" and "\<not> parsed c0" and "keepsParsed I"
  shows "(case fst (Preparing I os a c0) of
            None \<Rightarrow> parsed (fst (snd (Parse I os a c0)))
          | Some pe \<Rightarrow> \<not> parsed (fst (snd (Parse I os a c0))))
     \<and> NewGroup g c = (Panic ErrParsed, c)
     \<and> registerOpt group_registerOpt g isCli opt' c = (Panic ErrParsed, c)
     \<and> registerStruct group_registerStruct asValidator g s isCli c = (Panic ErrParsed, c)
     \<and> AddParser I ps c = (Panic ErrParsed, c)
     \<and> RemoveParser I n c = (Panic ErrParsed, c)
     \<and> SetDefaultGroupName n c = (Panic ErrParsed, c)
     \<and> SetGroupSeparator sep c = (Panic (if sep = [] then ErrEmptySeparator else ErrParsed), c)
     \<and> Parse I os' a' c = (Panic ErrParsed, c, [])
     \<and> parsed (snd (SetOptValue priority g n v c))"
proof -
  obtain r c' tr where P: "Parse I os a c0 = (r, c', tr)" by (cases "Parse I os a c0")
  obtain r1 c3 t1 where Q: "Preparing I os a c0 = (r1, c3, t1)" by (cases "Preparing I os a c0")
  from Parse_parsed[OF assms(2,3) P Q] P Q
  have 1: "case fst (Preparing I os a c0) of
            None \<Rightarrow> parsed (fst (snd (Parse I os a c0)))
          | Some pe \<Rightarrow> \<not> parsed (fst (snd (Parse I os a c0)))"
    by (cases r1) auto
  have 2: "parsed (snd (SetOptValue priority g n v c))"
    using assms(1) by (auto simp: SetOptValue_def split: option.splits prod.splits)
  from assms(1) 1 2 show ?thesis
    by (simp add: NewGroup_def registerOpt_def registerStruct_def AddParser_def RemoveParser_def
        SetDefaultGroupName_def SetGroupSeparator_def Parse_def panicIsParsed_def)
qed

theorem structure_frozen_once_parsed_witness:
  "(let c = fst (snd (Parse testEnv [] None NewConfig)) in
      parsed c \<and> \<not> parsed (NewConfig :: (testParser, error option) Config) \<and> keepsParsed testEnv
    \<and> NewGroup ''x'' c = (Panic ErrParsed, c)
    \<and> AddParser testEnv [tpA] c = (Panic ErrParsed, c)
    \<and> SetGroupSeparator ''/'' c = (Panic ErrParsed, c)
    \<and> SetGroupSeparator [] c = (Panic ErrEmptySeparator, c)
    \<and> SetDefaultGroupName ''main'' c = (Panic ErrParsed, c))"
proof -
  let ?c = "fst (snd (Parse testEnv [] None NewConfig))"
  have p: "parsed ?c" by (simp add: Parse_empty)
  have np: "\<not> parsed (NewConfig :: (testParser, error option) Config)" by (simp add: NewConfig_eq)
  show ?thesis
    using p np keepsParsed_testEnv
    by (simp add: Let_def structure_frozen_once_parsed[OF p np keepsParsed_testEnv])
qed

section \<open>Writing option values\<close>

lemma getGroupByName_False:
  "getGroupByName g False c = (groupPtr (getGroupName (TrimPrefix g (groupPrefix c)) c) c, c)"
  by (simp add: getGroupByName_def Let_def)

lemma lookupGroup_key:
  "lookupGroup g c = map_of (groups c) (getGroupName (TrimPrefix g (groupPrefix c)) c)"
  by (simp add: lookupGroup_def getGroupByName_False groupPtr_def)

lemma HasGroup_key:
  "HasGroup g c \<longleftrightarrow> map_of (groups c) (getGroupName (TrimPrefix g (groupPrefix c)) c) \<noteq> None"
  by (simp add: HasGroup_def getGroupByName_False groupPtr_def)

lemma OptGroup_setOptValue_Some:
  "map_of (opts grp) n = Some e \<Longrightarrow>
   OptGroup_setOptValue p n v grp =
     (None, if admits p e
            then grp\<lparr>opts := AList.update n (e\<lparr>currentValue := Some v, setPriority := p\<rparr>) (opts grp)\<rparr>
            else grp)"
  by (simp add: OptGroup_setOptValue_def admits_def)

lemma SetOptValue_unfold:
  assumes "map_of (groups c) (getGroupName (TrimPrefix g (groupPrefix c)) c) = Some grp"
    and "map_of (opts grp) n = Some e" and "0 \<le> p"
  shows "SetOptValue p g n v c =
     (None, if admits p e
            then c\<lparr>groups := AList.update (getGroupName (TrimPrefix g (groupPrefix c)) c)
                     (grp\<lparr>opts := AList.update n (e\<lparr>currentValue := Some v, setPriority := p\<rparr>) (opts grp)\<rparr>)
                     (groups c)\<rparr>
            else c)"
proof -
  have "\<not> p < 0" using assms(3) by simp
  then show ?thesis
    using assms(1)
    by (simp add: SetOptValue_def getGroupByName_False groupPtr_def
        OptGroup_setOptValue_Some[OF assms(2)] update_triv)
qed

lemma lookupOpt_Some:
  "lookupOpt g n c = Some e \<longleftrightarrow>
     (\<exists>grp. map_of (groups c) (getGroupName (TrimPrefix g (groupPrefix c)) c) = Some grp
            \<and> map_of (opts grp) n = Some e)"
  by (simp add: lookupOpt_def lookupGroup_key split: option.splits)

lemma SetOptValue_ok:
  assumes "lookupOpt g n c = Some e" "0 \<le> p"
  shows "fst (SetOptValue p g n v c) = None"
    and "lookupOpt g n (snd (SetOptValue p g n v c))
           = Some (if admits p e then e\<lparr>currentValue := Some v, setPriority := p\<rparr> else e)"
proof -
  let ?k = "getGroupName (TrimPrefix g (groupPrefix c)) c"
  from assms(1) obtain grp where grp: "map_of (groups c) ?k = Some grp" "map_of (opts grp) n = Some e"
    by (auto simp: lookupOpt_Some)
  note U = SetOptValue_unfold[OF grp assms(2), of v]
  show "fst (SetOptValue p g n v c) = None"
    by (simp add: U)
  show "lookupOpt g n (snd (SetOptValue p g n v c))
           = Some (if admits p e then e\<lparr>currentValue := Some v, setPriority := p\<rparr> else e)"
  proof (cases "admits p e")
    case True
    then show ?thesis
      by (simp add: U lookupOpt_Some getGroupName_def update_conv')
  next
    case False
    then show ?thesis
      using assms(1) by (simp add: U)
  qed
qed

lemma SetOptValue_negative: "p < 0 \<Longrightarrow> SetOptValue p g n v c = (Some ErrNegativePriority, c)"
  by (simp add: SetOptValue_def)

lemma SetOptValue_noGroup:
  "\<not> HasGroup g c \<Longrightarrow> 0 \<le> p \<Longrightarrow> SetOptValue p g n v c = (Some (ErrNoGroup g), c)"
  by (simp add: SetOptValue_def HasGroup_def)

lemma SetOptValue_noOpt:
  assumes "lookupGroup g c = Some grp" "map_of (opts grp) n = None" "0 \<le> p"
  shows "SetOptValue p g n v c = (Some (ErrNoOption (group_name grp) n), c)"
proof -
  have "\<not> p < 0" using assms(3) by simp
  moreover have "map_of (groups c) (getGroupName (TrimPrefix g (groupPrefix c)) c) = Some grp"
    using assms(1) by (simp add: lookupGroup_key)
  ultimately show ?thesis
    using assms(2)
    by (simp add: SetOptValue_def getGroupByName_False groupPtr_def OptGroup_setOptValue_def
        update_triv)
qed

lemma storedValue_entry: "lookupOpt g n c = Some e \<Longrightarrow> storedValue g n c = currentValue e"
  by (simp add: storedValue_def)

lemma find_Some_mem: "List.find P xs = Some x \<Longrightarrow> x \<in> set xs \<and> P x"
  by (induction xs) (auto split: if_splits)

lemma checkRequiredOption_Some:
  assumes "OptGroup_checkRequiredOption grp = Some err"
  shows "\<exists>n e. (n, e) \<in> set (opts grp) \<and> isMissing e \<and> err = ErrMissingRequired (group_name grp) n"
proof -
  from assms obtain n e where f: "List.find (\<lambda>(n, e). isMissing e) (opts grp) = Some (n, e)"
    and err: "err = ErrMissingRequired (group_name grp) n"
    by (auto simp: OptGroup_checkRequiredOption_def split: option.splits prod.splits)
  from find_Some_mem[OF f] err show ?thesis by auto
qed

lemma checkRequiredOption_None:
  "OptGroup_checkRequiredOption grp = None \<longleftrightarrow> (\<forall>(n, e) \<in> set (opts grp). \<not> isMissing e)"
proof -
  have "OptGroup_checkRequiredOption grp = None
          \<longleftrightarrow> List.find (\<lambda>(n, e). isMissing e) (opts grp) = None"
    by (simp add: OptGroup_checkRequiredOption_def split: option.splits prod.splits)
  then show ?thesis by (auto simp: find_None_iff)
qed

lemma checkRequiredOptions_None:
  "checkRequiredOptions gs = None
     \<longleftrightarrow> (\<forall>(k, grp) \<in> set gs. \<forall>(n, e) \<in> set (opts grp). \<not> isMissing e)"
proof (induction gs rule: checkRequiredOptions.induct)
  case 1
  show ?case by simp
next
  case (2 k g gs)
  show ?case
  proof (cases "OptGroup_checkRequiredOption g")
    case None
    with 2 checkRequiredOption_None[of g] show ?thesis by simp
  next
    case (Some e')
    then have "\<not> (\<forall>(n, e) \<in> set (opts g). \<not> isMissing e)"
      using checkRequiredOption_None[of g] by simp
    with Some show ?thesis by simp
  qed
qed

lemma checkRequiredOptions_Some:
  "checkRequiredOptions gs = Some err \<Longrightarrow>
     \<exists>k grp n e. (k, grp) \<in> set gs \<and> (n, e) \<in> set (opts grp) \<and> isMissing e
        \<and> err = ErrMissingRequired (group_name grp) n"
proof (induction gs rule: checkRequiredOptions.induct)
  case 1
  then show ?case by simp
next
  case (2 k g gs)
  show ?case
  proof (cases "OptGroup_checkRequiredOption g")
    case None
    with 2 obtain k' grp n e where "(k', grp) \<in> set gs" "(n, e) \<in> set (opts grp)" "isMissing e"
      "err = ErrMissingRequired (group_name grp) n" by auto
    then show ?thesis by (intro exI[of _ k'] exI[of _ grp] exI[of _ n] exI[of _ e]) simp
  next
    case (Some e')
    with 2(2) have "e' = err" by simp
    with checkRequiredOption_Some[OF Some] obtain n e where "(n, e) \<in> set (opts g)" "isMissing e"
      "err = ErrMissingRequired (group_name g) n" by auto
    then show ?thesis by (intro exI[of _ k] exI[of _ g] exI[of _ n] exI[of _ e]) simp
  qed
qed

lemma Parse_after_parsers:
  assumes "\<not> parsed c" and "runParsers I os a c = (None, c6, calls)"
  shows "Parse I os a c =
     (Return (case checkRequiredOptions (groups c6) of
                Some e \<Rightarrow> Some e
              | None \<Rightarrow> runValidators (Validate I) (validators c6)), c6, calls)"
  using assms by (simp add: Parse_def panicIsParsed_def split: option.splits)

lemma checkRequiredOptions_None_iff:
  "checkRequiredOptions gs = None
     \<longleftrightarrow> (\<forall>k grp n e. (k, grp) \<in> set gs \<and> (n, e) \<in> set (opts grp) \<longrightarrow> \<not> isMissing e)"
  unfolding checkRequiredOptions_None by fastforce

lemma SetOptValue_None_D:
  assumes "fst (SetOptValue p g n v d) = None"
  shows "0 \<le> p \<and> (\<exists>e. lookupOpt g n d = Some e)"
proof -
  have p: "0 \<le> p"
    using assms SetOptValue_negative[of p g n v d] by (cases "p < 0") auto
  have h: "HasGroup g d"
    using assms p SetOptValue_noGroup[of g d p n v] by (cases "HasGroup g d") auto
  then obtain grp where grp: "lookupGroup g d = Some grp"
    by (auto simp: HasGroup_key lookupGroup_key)
  have "map_of (opts grp) n \<noteq> None"
    using assms SetOptValue_noOpt[OF grp _ p, of n v] by (cases "map_of (opts grp) n") auto
  with grp p show ?thesis by (auto simp: lookupOpt_def)
qed

lemma SetOptValue_written:
  assumes "fst (SetOptValue p g n v d) = None"
  shows "\<exists>e. lookupOpt g n (snd (SetOptValue p g n v d)) = Some e \<and> currentValue e \<noteq> None
            \<and> \<not> isMissing e"
proof -
  from SetOptValue_None_D[OF assms] obtain e where e: "lookupOpt g n d = Some e" "0 \<le> p"
    by auto
  from SetOptValue_ok(2)[OF e, of v] show ?thesis
    by (auto simp: admits_def isMissing_def)
qed

subsection \<open>The registry with the option host\<close>

lemma optHost_NewStrOpt: "NewStrOpt [] ''host'' None True [] = Return optHost"
  by (simp add: NewStrOpt_def newBaseOpt_def GetDefault_def optHost_def)

lemma cHost_eq:
  "cHost = NewConfig\<lparr>groups := [(''DEFAULT'',
      \<lparr>group_name = ''DEFAULT'', group_fullName = ''DEFAULT'', opts = [(''host'', hostEntry)]\<rparr>)]\<rparr>"
  by (simp add: cHost_def RegisterOpt_def registerOpt_def panicIsParsed_def NewConfig_eq
      getGroupByName_def TrimPrefix_def newOptGroup_def groupPtr_def OptGroup_new_def
      OptGroup_registerOpt_def optHost_def hostEntry_def Let_def)

lemma cHost_fields:
  "\<not> parsed cHost" "groupName cHost = ''DEFAULT''" "groupPrefix cHost = ''DEFAULT.''"
  "groupSep cHost = ''.''" "parsers cHost = []" "validators cHost = []"
  "groups cHost = [(''DEFAULT'',
      \<lparr>group_name = ''DEFAULT'', group_fullName = ''DEFAULT'', opts = [(''host'', hostEntry)]\<rparr>)]"
  by (simp_all add: cHost_eq NewConfig_eq)

lemma cHost_lookup: "lookupOpt [] ''host'' cHost = Some hostEntry"
  by (simp add: lookupOpt_Some cHost_fields TrimPrefix_def getGroupName_def)

lemma cHost_HasGroup: "HasGroup [] cHost" "\<not> HasGroup ''nogroup'' cHost"
  by (simp_all add: HasGroup_key cHost_fields TrimPrefix_def getGroupName_def)

lemma cHost_noopt: "lookupOpt [] ''noopt'' cHost = None"
  by (simp add: lookupOpt_def lookupGroup_key cHost_fields TrimPrefix_def getGroupName_def)

lemma cHost_default: "getGroupByName ''DEFAULT'' True cHost = (Some ''DEFAULT'', cHost)"
proof -
  have "getGroupByName ''DEFAULT'' True cHost
          = (Some ''DEFAULT'', cHost\<lparr>groups := groups cHost\<rparr>)"
    unfolding cHost_fields(7)
    by (simp add: getGroupByName_def cHost_fields TrimPrefix_def Split_DEFAULT newOptGroup_def
        groupPtr_def Let_def)
  then show ?thesis by simp
qed

lemma cHost_runParsers: "runParsers testEnv [] None cHost = (None, cHost\<lparr>cliArgs := [], parsed := True\<rparr>, [])"
  by (simp add: runParsers_def Preparing_def cHost_fields cHost_default Let_def)

subsection \<open>Errors of SetOptValue\<close>

text \<open>
  C3. \<open>SetOptValue\<close> returns an error exactly when the priority is negative, or the named
  group does not exist, or the group has no option of that name; and whenever it returns
  an error the manager, with every stored value, is unchanged.
\<close>

theorem SetOptValue_error_iff:
  "(fst (SetOptValue priority g n v c) \<noteq> None
      \<longleftrightarrow> priority < 0 \<or> \<not> HasGroup g c \<or> lookupOpt g n c = None)
   \<and> (fst (SetOptValue priority g n v c) \<noteq> None \<longrightarrow> snd (SetOptValue priority g n v c) = c)"
proof (cases "priority < 0")
  case True
  then show ?thesis by (simp add: SetOptValue_negative)
next
  case nonneg: False
  then have p: "0 \<le> priority" by simp
  show ?thesis
  proof (cases "HasGroup g c")
    case False
    then show ?thesis using p by (simp add: SetOptValue_noGroup)
  next
    case True
    then obtain grp where grp: "lookupGroup g c = Some grp"
      by (auto simp: HasGroup_key lookupGroup_key)
    show ?thesis
    proof (cases "map_of (opts grp) n")
      case None
      then have "lookupOpt g n c = None" using grp by (simp add: lookupOpt_def)
      then show ?thesis using SetOptValue_noOpt[OF grp None p, of v] by simp
    next
      case (Some e)
      then have e: "lookupOpt g n c = Some e" using grp by (simp add: lookupOpt_def)
      from SetOptValue_ok(1)[OF e p, of v] e True nonneg show ?thesis by simp
    qed
  qed
qed

theorem SetOptValue_error_iff_witness:
  "fst (SetOptValue (- 1) [] ''host'' (VString ''h'') cHost) \<noteq> None
   \<and> snd (SetOptValue (- 1) [] ''host'' (VString ''h'') cHost) = cHost
   \<and> fst (SetOptValue 1 ''nogroup'' ''host'' (VString ''h'') cHost) \<noteq> None
   \<and> snd (SetOptValue 1 ''nogroup'' ''host'' (VString ''h'') cHost) = cHost
   \<and> fst (SetOptValue 1 [] ''noopt'' (VString ''h'') cHost) \<noteq> None
   \<and> snd (SetOptValue 1 [] ''noopt'' (VString ''h'') cHost) = cHost
   \<and> fst (SetOptValue 1 [] ''host'' (VString ''h'') cHost) = None"
  using SetOptValue_error_iff[of "- 1" "[]" "''host''" "VString ''h''" cHost]
    SetOptValue_error_iff[of 1 "''nogroup''" "''host''" "VString ''h''" cHost]
    SetOptValue_error_iff[of 1 "[]" "''noopt''" "VString ''h''" cHost]
    SetOptValue_error_iff[of 1 "[]" "''host''" "VString ''h''" cHost]
    cHost_lookup cHost_HasGroup cHost_noopt
  by simp

subsection \<open>Priorities\<close>

text \<open>
  C1. For a registered option and priorities \<open>0 < p1 < p2\<close>: the call with \<open>p1\<close> after the
  call with \<open>p2\<close> leaves the value the call with \<open>p2\<close> has left, and the calls with \<open>p1\<close>
  and then \<open>p2\<close> leave the same value as the call with \<open>p2\<close> alone. When the option has no
  value before the two calls, or its recorded set-priority is at most \<open>p2\<close>, that value
  is the one written at \<open>p2\<close>, in either order of the calls. When the option already holds a
  value written at a priority above \<open>p2\<close>, that earlier value stays, in either order. A
  call with priority \<open>0\<close> always stores its value: on the option as it is, after the call
  with \<open>p2\<close>, and after both calls.
\<close>

theorem SetOptValue_priority:
  assumes "lookupOpt g n c = Some e" and "0 < p1" and "p1 < p2"
  shows "storedValue g n (snd (SetOptValue p1 g n v1 (snd (SetOptValue p2 g n v2 c))))
           = storedValue g n (snd (SetOptValue p2 g n v2 c))
       \<and> storedValue g n (snd (SetOptValue p2 g n v2 (snd (SetOptValue p1 g n v1 c))))
           = storedValue g n (snd (SetOptValue p2 g n v2 c))
       \<and> (currentValue e = None \<or> setPriority e \<le> p2
            \<longrightarrow> storedValue g n (snd (SetOptValue p2 g n v2 c)) = Some v2
              \<and> storedValue g n (snd (SetOptValue p1 g n v1 (snd (SetOptValue p2 g n v2 c))))
                  = Some v2
              \<and> storedValue g n (snd (SetOptValue p2 g n v2 (snd (SetOptValue p1 g n v1 c))))
                  = Some v2)
       \<and> (\<not> (currentValue e = None \<or> setPriority e \<le> p2)
            \<longrightarrow> storedValue g n (snd (SetOptValue p2 g n v2 c)) = currentValue e
              \<and> storedValue g n (snd (SetOptValue p1 g n v1 (snd (SetOptValue p2 g n v2 c))))
                  = currentValue e
              \<and> storedValue g n (snd (SetOptValue p2 g n v2 (snd (SetOptValue p1 g n v1 c))))
                  = currentValue e)
       \<and> storedValue g n (snd (SetOptValue 0 g n v c)) = Some v
       \<and> storedValue g n (snd (SetOptValue 0 g n v (snd (SetOptValue p2 g n v2 c)))) = Some v
       \<and> storedValue g n (snd (SetOptValue 0 g n v
            (snd (SetOptValue p1 g n v1 (snd (SetOptValue p2 g n v2 c)))))) = Some v"
proof -
  have p: "0 \<le> p1" "0 \<le> p2" "0 \<le> (0::int)" using assms(2,3) by auto
  let ?w = "\<lambda>p v e. if admits p e then e\<lparr>currentValue := Some v, setPriority := p\<rparr> else e"
  have A2: "lookupOpt g n (snd (SetOptValue p2 g n v2 c)) = Some (?w p2 v2 e)"
    by (rule SetOptValue_ok(2)[OF assms(1) p(2)])
  have A1: "lookupOpt g n (snd (SetOptValue p1 g n v1 c)) = Some (?w p1 v1 e)"
    by (rule SetOptValue_ok(2)[OF assms(1) p(1)])
  have A0: "lookupOpt g n (snd (SetOptValue 0 g n v c)) = Some (?w 0 v e)"
    by (rule SetOptValue_ok(2)[OF assms(1) p(3)])
  have B1: "lookupOpt g n (snd (SetOptValue p1 g n v1 (snd (SetOptValue p2 g n v2 c))))
              = Some (?w p1 v1 (?w p2 v2 e))"
    by (rule SetOptValue_ok(2)[OF A2 p(1)])
  have B2: "lookupOpt g n (snd (SetOptValue p2 g n v2 (snd (SetOptValue p1 g n v1 c))))
              = Some (?w p2 v2 (?w p1 v1 e))"
    by (rule SetOptValue_ok(2)[OF A1 p(2)])
  have C0: "lookupOpt g n (snd (SetOptValue 0 g n v (snd (SetOptValue p2 g n v2 c))))
              = Some (?w 0 v (?w p2 v2 e))"
    by (rule SetOptValue_ok(2)[OF A2 p(3)])
  have D0: "lookupOpt g n (snd (SetOptValue 0 g n v
                (snd (SetOptValue p1 g n v1 (snd (SetOptValue p2 g n v2 c))))))
              = Some (?w 0 v (?w p1 v1 (?w p2 v2 e)))"
    by (rule SetOptValue_ok(2)[OF B1 p(3)])
  have 1: "currentValue (?w p1 v1 (?w p2 v2 e)) = currentValue (?w p2 v2 e)"
    using assms(2,3) by (auto simp: admits_def)
  have 2: "currentValue (?w p2 v2 (?w p1 v1 e)) = currentValue (?w p2 v2 e)"
    using assms(2,3) by (auto simp: admits_def)
  have 3: "currentValue e = None \<or> setPriority e \<le> p2 \<Longrightarrow> currentValue (?w p2 v2 e) = Some v2"
    by (auto simp: admits_def)
  have 4: "\<not> (currentValue e = None \<or> setPriority e \<le> p2)
             \<Longrightarrow> currentValue (?w p2 v2 e) = currentValue e"
    using assms(2,3) by (auto simp: admits_def)
  have 5: "currentValue (?w 0 v e') = Some v" for e'
    by (simp add: admits_def)
  show ?thesis
    unfolding storedValue_entry[OF A2] storedValue_entry[OF B1] storedValue_entry[OF B2]
      storedValue_entry[OF A0] storedValue_entry[OF C0] storedValue_entry[OF D0] 5
    using 1 2 3 4 by (simp only:) blast
qed

theorem SetOptValue_priority_witness:
  "lookupOpt [] ''host'' cHost = Some hostEntry \<and> (0::int) < 5 \<and> (5::int) < 10
   \<and> storedValue [] ''host'' (snd (SetOptValue 5 [] ''host'' (VString ''low'')
         (snd (SetOptValue 10 [] ''host'' (VString ''high'') cHost)))) = Some (VString ''high'')
   \<and> storedValue [] ''host'' (snd (SetOptValue 10 [] ''host'' (VString ''high'')
         (snd (SetOptValue 5 [] ''host'' (VString ''low'') cHost)))) = Some (VString ''high'')
   \<and> storedValue [] ''host'' (snd (SetOptValue 0 [] ''host'' (VString ''forced'') cHost))
        = Some (VString ''forced'')
   \<and> storedValue [] ''host'' (snd (SetOptValue 0 [] ''host'' (VString ''forced'')
         (snd (SetOptValue 5 [] ''host'' (VString ''low'')
            (snd (SetOptValue 10 [] ''host'' (VString ''high'') cHost))))))
        = Some (VString ''forced'')
   \<and> lookupOpt [] ''host'' (snd (SetOptValue 20 [] ''host'' (VString ''first'') cHost))
        = Some (hostEntry\<lparr>currentValue := Some (VString ''first''), setPriority := 20\<rparr>)
   \<and> storedValue [] ''host'' (snd (SetOptValue 5 [] ''host'' (VString ''low'')
         (snd (SetOptValue 10 [] ''host'' (VString ''high'')
            (snd (SetOptValue 20 [] ''host'' (VString ''first'') cHost))))))
        = Some (VString ''first'')
   \<and> storedValue [] ''host'' (snd (SetOptValue 10 [] ''host'' (VString ''high'')
         (snd (SetOptValue 5 [] ''host'' (VString ''low'')
            (snd (SetOptValue 20 [] ''host'' (VString ''first'') cHost))))))
        = Some (VString ''first'')"
proof -
  have a: "(0::int) < 5" "(5::int) < 10" by simp_all
  have h: "currentValue hostEntry = None" by (simp add: hostEntry_def)
  let ?c1 = "snd (SetOptValue 20 [] ''host'' (VString ''first'') cHost)"
  let ?e1 = "hostEntry\<lparr>currentValue := Some (VString ''first''), setPriority := 20\<rparr>"
  have L1: "lookupOpt [] ''host'' ?c1 = Some ?e1"
    using SetOptValue_ok(2)[OF cHost_lookup, of 20 "VString ''first''"]
    by (simp add: admits_def hostEntry_def)
  have e1: "currentValue ?e1 = Some (VString ''first'')" "setPriority ?e1 = 20" by simp_all
  have fresh: "storedValue [] ''host'' (snd (SetOptValue 5 [] ''host'' (VString ''low'')
         (snd (SetOptValue 10 [] ''host'' (VString ''high'') cHost)))) = Some (VString ''high'')
   \<and> storedValue [] ''host'' (snd (SetOptValue 10 [] ''host'' (VString ''high'')
         (snd (SetOptValue 5 [] ''host'' (VString ''low'') cHost)))) = Some (VString ''high'')
   \<and> storedValue [] ''host'' (snd (SetOptValue 0 [] ''host'' (VString ''forced'') cHost))
        = Some (VString ''forced'')
   \<and> storedValue [] ''host'' (snd (SetOptValue 0 [] ''host'' (VString ''forced'')
         (snd (SetOptValue 5 [] ''host'' (VString ''low'')
            (snd (SetOptValue 10 [] ''host'' (VString ''high'') cHost))))))
        = Some (VString ''forced'')"
    using SetOptValue_priority[OF cHost_lookup a, of "VString ''low''" "VString ''high''"
        "VString ''forced''"] h
    by simp
  have held: "storedValue [] ''host'' (snd (SetOptValue 5 [] ''host'' (VString ''low'')
         (snd (SetOptValue 10 [] ''host'' (VString ''high'') ?c1)))) = Some (VString ''first'')
   \<and> storedValue [] ''host'' (snd (SetOptValue 10 [] ''host'' (VString ''high'')
         (snd (SetOptValue 5 [] ''host'' (VString ''low'') ?c1)))) = Some (VString ''first'')"
    using SetOptValue_priority[OF L1 a, of "VString ''low''" "VString ''high''"
        "VString ''forced''"]
    unfolding e1 by simp
  from fresh held cHost_lookup L1 a show ?thesis by simp
qed

section \<open>Required options\<close>

subsection \<open>Values that last until the check\<close>

lemma runHooks_preserves:
  assumes "\<And>q s. P s \<Longrightarrow> P (snd (h q s))" and "P c"
  shows "P (fst (snd (runHooks h ps c)))"
  using assms(2)
proof (induction ps arbitrary: c)
  case Nil
  then show ?case by simp
next
  case (Cons q ps)
  obtain e c1 where h: "h q c = (e, c1)" by (cases "h q c")
  from assms(1)[OF Cons.prems, of q] h have c1: "P c1" by simp
  show ?case
  proof (cases e)
    case None
    with h Cons.IH[OF c1] show ?thesis by (auto split: prod.splits)
  next
    case (Some a)
    with h c1 show ?thesis by simp
  qed
qed

lemma runHooks_establishes:
  assumes "runHooks h ps c = (None, c', called)" and "p \<in> set called"
    and "\<And>s. fst (h p s) = None \<Longrightarrow> P (snd (h p s))"
    and "\<And>q s. P s \<Longrightarrow> P (snd (h q s))"
  shows "P c'"
  using assms(1,2)
proof (induction ps arbitrary: c called)
  case Nil
  then show ?case by simp
next
  case (Cons q ps)
  obtain e c1 where h: "h q c = (e, c1)" by (cases "h q c")
  obtain r2 c2 t2 where rec: "runHooks h ps c1 = (r2, c2, t2)" by (cases "runHooks h ps c1")
  from Cons.prems(1) h rec have e: "e = None" and r2: "r2 = None" and c2: "c2 = c'"
    and called: "called = q # t2"
    by (auto split: option.splits)
  from Cons.prems(2) called consider "p = q" | "p \<in> set t2" by auto
  then show ?case
  proof cases
    case 1
    from assms(3)[of c] h e 1 have "P c1" by simp
    from runHooks_preserves[of P h, OF assms(4) this, of ps] rec c2 show ?thesis by simp
  next
    case 2
    from Cons.IH[OF _ 2, of c1] rec r2 c2 show ?thesis by simp
  qed
qed

lemma runParsers_None_D:
  assumes "runParsers I os a c = (None, c6, calls)"
  shows "\<exists>c3 t1 c5 t2 t3.
          Preparing I os a c = (None, c3, t1)
        \<and> runHooks (ParseHook I) (parsers (c3\<lparr>parsed := True\<rparr>)) (c3\<lparr>parsed := True\<rparr>) = (None, c5, t2)
        \<and> runHooks (Post I) (parsers c5) c5 = (None, c6, t3)
        \<and> calls = map (Pair PreP) t1 @ map (Pair ParseP) t2 @ map (Pair PostP) t3"
  using assms
  by (auto simp: runParsers_def Let_def split: prod.splits option.splits)

lemma written_persists:
  assumes "runParsers I os a c = (None, c6, calls)" and "(ParseP, p) \<in> set calls"
    and "writesOpt I p g n" and "keepsValue I g n"
  shows "hasValue g n c6"
proof -
  from runParsers_None_D[OF assms(1)] obtain c3 t1 c5 t2 t3 where
    Q: "runHooks (ParseHook I) (parsers (c3\<lparr>parsed := True\<rparr>)) (c3\<lparr>parsed := True\<rparr>) = (None, c5, t2)"
    and R: "runHooks (Post I) (parsers c5) c5 = (None, c6, t3)"
    and calls: "calls = map (Pair PreP) t1 @ map (Pair ParseP) t2 @ map (Pair PostP) t3"
    by blast
  from assms(2) calls have p: "p \<in> set t2" by auto
  have "hasValue g n c5"
    using runHooks_establishes[OF Q p, of "hasValue g n"] assms(3,4)
    by (auto simp: writesOpt_def keepsValue_def)
  from runHooks_preserves[of "hasValue g n" "Post I", OF _ this, of "parsers c5"] assms(4) R
  show ?thesis by (auto simp: keepsValue_def)
qed

lemma hasValue_entry:
  "hasValue g n c \<longleftrightarrow> (\<exists>e. lookupOpt g n c = Some e \<and> currentValue e \<noteq> None)"
  by (auto simp: hasValue_def storedValue_def split: option.splits)

lemma wf_unique:
  assumes "wfGroups c" and "(k, grp) \<in> set (groups c)" and "(k', grp') \<in> set (groups c)"
    and "(n, e) \<in> set (opts grp)" and "(n', e') \<in> set (opts grp')"
    and "group_name grp' = group_name grp" and "n' = n"
  shows "e' = e"
proof -
  from assms(1,2,3) have k: "group_name grp = k" "group_name grp' = k'"
    by (auto simp: wfGroups_def)
  with assms(6) have kk: "k' = k" by simp
  from assms(1) have d: "distinct (map fst (groups c))" by (simp add: wfGroups_def)
  from map_of_is_SomeI[OF d assms(2)] map_of_is_SomeI[OF d assms(3)] kk have g: "grp' = grp" by simp
  from assms(1,2) have d2: "distinct (map fst (opts grp))" by (auto simp: wfGroups_def)
  from map_of_is_SomeI[OF d2 assms(4)] map_of_is_SomeI[OF d2] assms(5,7) g show ?thesis by auto
qed

lemma not_on_its_account:
  assumes "\<not> parsed c" and "runParsers I os a c = (None, c6, calls)"
    and "wfGroups c6" and "lookupGroup g c6 = Some grp" and "map_of (opts grp) n = Some e"
    and "currentValue e \<noteq> None"
  shows "fst (Parse I os a c) = Return (runValidators (Validate I) (validators c6))
       \<or> (\<exists>k' grp' n' e'. (k', grp') \<in> set (groups c6) \<and> (n', e') \<in> set (opts grp') \<and> isMissing e'
            \<and> (group_name grp', n') \<noteq> (group_name grp, n)
            \<and> fst (Parse I os a c) = Return (Some (ErrMissingRequired (group_name grp') n')))"
proof (cases "checkRequiredOptions (groups c6)")
  case None
  then show ?thesis by (simp add: Parse_after_parsers[OF assms(1,2)])
next
  case (Some err)
  from checkRequiredOptions_Some[OF Some] obtain k' grp' n' e' where
    m: "(k', grp') \<in> set (groups c6)" "(n', e') \<in> set (opts grp')" "isMissing e'"
    "err = ErrMissingRequired (group_name grp') n'" by blast
  from assms(4) have "map_of (groups c6) (getGroupName (TrimPrefix g (groupPrefix c6)) c6) = Some grp"
    by (simp add: lookupGroup_key)
  then have kg: "(getGroupName (TrimPrefix g (groupPrefix c6)) c6, grp) \<in> set (groups c6)"
    by (rule map_of_SomeD)
  from assms(5) have ne: "(n, e) \<in> set (opts grp)" by (rule map_of_SomeD)
  have "(group_name grp', n') \<noteq> (group_name grp, n)"
  proof
    assume "(group_name grp', n') = (group_name grp, n)"
    then have "e' = e" using wf_unique[OF assms(3) kg m(1) ne m(2)] by simp
    with m(3) assms(6) show False by (simp add: isMissing_def)
  qed
  with m Some show ?thesis
    by (auto simp: Parse_after_parsers[OF assms(1,2)])
qed


lemma lookupOpt_update:
  "lookupOpt g n (c\<lparr>groups := AList.update k' g'' (groups c)\<rparr>)
     = (if getGroupName (TrimPrefix g (groupPrefix c)) c = k' then map_of (opts g'') n
        else lookupOpt g n c)"
proof -
  have key: "getGroupName x (c\<lparr>groups := y\<rparr>) = getGroupName x c" for x y
    by (simp add: getGroupName_def)
  show ?thesis
    by (simp add: lookupOpt_def lookupGroup_key key update_conv')
qed

lemma SetOptValue_keeps_hasValue:
  assumes "hasValue g n c"
  shows "hasValue g n (snd (SetOptValue p g' n' v c))"
proof (cases "fst (SetOptValue p g' n' v c) = None")
  case False
  have "snd (SetOptValue p g' n' v c) = c"
  proof (cases "p < 0")
    case True
    then show ?thesis by (simp add: SetOptValue_negative)
  next
    case nonneg: False
    then have p: "0 \<le> p" by simp
    show ?thesis
    proof (cases "lookupGroup g' c")
      case None
      then have "\<not> HasGroup g' c" by (simp add: HasGroup_key lookupGroup_key)
      from SetOptValue_noGroup[OF this p] show ?thesis by simp
    next
      case (Some grp)
      show ?thesis
      proof (cases "map_of (opts grp) n'")
        case None
        from SetOptValue_noOpt[OF Some None p] show ?thesis by simp
      next
        case (Some e)
        with \<open>lookupGroup g' c = Some grp\<close> have "lookupOpt g' n' c = Some e"
          by (simp add: lookupOpt_def)
        from SetOptValue_ok(1)[OF this p] False show ?thesis by simp
      qed
    qed
  qed
  with assms show ?thesis by simp
next
  case True
  from SetOptValue_None_D[OF True] obtain e' where e': "lookupOpt g' n' c = Some e'" and p: "0 \<le> p"
    by auto
  let ?k = "getGroupName (TrimPrefix g (groupPrefix c)) c"
  let ?k' = "getGroupName (TrimPrefix g' (groupPrefix c)) c"
  from e' obtain grp' where grp': "map_of (groups c) ?k' = Some grp'" "map_of (opts grp') n' = Some e'"
    by (auto simp: lookupOpt_Some)
  from assms obtain e where e: "lookupOpt g n c = Some e" "currentValue e \<noteq> None"
    by (auto simp: hasValue_entry)
  then obtain grp where grp: "map_of (groups c) ?k = Some grp" "map_of (opts grp) n = Some e"
    by (auto simp: lookupOpt_Some)
  note U = SetOptValue_unfold[OF grp' p, of v]
  show ?thesis
  proof (cases "admits p e'")
    case False
    with U assms show ?thesis by simp
  next
    case True
    let ?e'' = "e'\<lparr>currentValue := Some v, setPriority := p\<rparr>"
    let ?g'' = "grp'\<lparr>opts := AList.update n' ?e'' (opts grp')\<rparr>"
    have L: "lookupOpt g n (snd (SetOptValue p g' n' v c))
               = (if ?k = ?k' then map_of (opts ?g'') n else lookupOpt g n c)"
      using True by (simp add: U lookupOpt_update)
    show ?thesis
    proof (cases "?k = ?k'")
      case False
      with L e show ?thesis by (simp add: hasValue_entry)
    next
      case k: True
      with grp grp' have gg: "grp' = grp" by simp
      show ?thesis
      proof (cases "n = n'")
        case True
        with L k show ?thesis by (simp add: hasValue_entry update_conv')
      next
        case False
        with L k gg grp(2) e(2) show ?thesis by (simp add: hasValue_entry update_conv')
      qed
    qed
  qed
qed

lemma tp_write_keeps_hasValue:
  "hasValue g n c \<Longrightarrow> hasValue g n (snd (tp_write pr ws c))"
proof (induction pr ws c rule: tp_write.induct)
  case (1 priority c)
  then show ?case by simp
next
  case (2 priority g' n' v ws c)
  obtain r c' where w: "SetOptValue priority g' n' v c = (r, c')" by (cases "SetOptValue priority g' n' v c")
  from SetOptValue_keeps_hasValue[OF 2(2), of priority g' n' v] w have c': "hasValue g n c'" by simp
  show ?case
  proof (cases r)
    case None
    with w 2(1)[OF _ _ c'] show ?thesis by simp
  next
    case (Some a)
    with w c' show ?thesis by simp
  qed
qed

lemma tp_write_establishes:
  "(g, n, v) \<in> set ws \<Longrightarrow> fst (tp_write pr ws c) = None \<Longrightarrow> hasValue g n (snd (tp_write pr ws c))"
proof (induction pr ws c rule: tp_write.induct)
  case (1 priority c)
  then show ?case by simp
next
  case (2 priority g' n' v' ws c)
  obtain r c' where w: "SetOptValue priority g' n' v' c = (r, c')" by (cases "SetOptValue priority g' n' v' c")
  from 2(3) w have r: "r = None" by (cases r) auto
  from 2(3) w r have rest: "fst (tp_write priority ws c') = None" by simp
  from 2(2) consider "(g, n, v) = (g', n', v')" | "(g, n, v) \<in> set ws" by auto
  then show ?case
  proof cases
    case 1
    from w r have "fst (SetOptValue priority g' n' v' c) = None" by simp
    from SetOptValue_written[OF this] w have "hasValue g' n' c'" by (auto simp: hasValue_entry)
    from tp_write_keeps_hasValue[OF this, of priority ws] 1 w r show ?thesis by simp
  next
    case 2
    from "2.IH"[OF _ _ 2 rest] w r show ?thesis by simp
  qed
qed

lemma ParseHook_testEnv:
  "snd (ParseHook testEnv p c) = snd (tp_write (tp_priority p) (tp_writes p) c)"
  "fst (ParseHook testEnv p c) = None \<Longrightarrow> fst (tp_write (tp_priority p) (tp_writes p) c) = None"
  by (auto simp: testEnv_def split: prod.splits option.splits)

lemma keepsValue_testEnv: "keepsValue testEnv g n"
  unfolding keepsValue_def
  by (auto simp: ParseHook_testEnv(1) tp_write_keeps_hasValue) (simp add: testEnv_def)

lemma writesOpt_testEnv: "(g, n, v) \<in> set (tp_writes p) \<Longrightarrow> writesOpt testEnv p g n"
  unfolding writesOpt_def
  by (auto simp: ParseHook_testEnv(1) dest!: ParseHook_testEnv(2) intro: tp_write_establishes)


lemma cHostW_eq: "cHostW = cHost\<lparr>parsers := [tpWrite0]\<rparr>"
  by (simp add: cHostW_def AddParser_def panicIsParsed_def sortParsers_def cHost_fields)

lemma cHostW_runParsers:
  "runParsers testEnv [] None cHostW
     = (None, cHostW\<lparr>cliArgs := [], parsed := True, groups := hostWritten\<rparr>, hookOrder [tpWrite0])"
proof -
  let ?c0 = "cHost\<lparr>parsers := [tpWrite0]\<rparr>"
  let ?c4 = "cHost\<lparr>parsers := [tpWrite0], cliArgs := [], parsed := True\<rparr>"
  have D: "getGroupByName ''DEFAULT'' True ?c0 = (Some ''DEFAULT'', ?c0)"
  proof -
    have "getGroupByName ''DEFAULT'' True ?c0 = (Some ''DEFAULT'', ?c0\<lparr>groups := groups cHost\<rparr>)"
      unfolding cHost_fields(7)
      by (simp add: getGroupByName_def cHost_fields TrimPrefix_def Split_DEFAULT newOptGroup_def
          groupPtr_def Let_def)
    then show ?thesis by simp
  qed
  have sel0: "tp_pre tpWrite0 = None" by (simp add: tpWrite0_def)
  have P: "Preparing testEnv [] None ?c0 = (None, ?c0\<lparr>cliArgs := []\<rparr>, [tpWrite0])"
    by (simp add: Preparing_def cHost_fields D Let_def) (simp add: testEnv_def sel0)
  let ?c5 = "?c4\<lparr>groups := hostWritten\<rparr>"
  have W: "SetOptValue 0 [] ''host'' (VString ''h'') ?c4 = (None, ?c5)"
    by (simp add: SetOptValue_def getGroupByName_False groupPtr_def OptGroup_setOptValue_def
        admits_def cHost_fields TrimPrefix_def getGroupName_def hostEntry_def hostWritten_def)
  have sel: "tp_priority tpWrite0 = 0" "tp_writes tpWrite0 = [([], ''host'', VString ''h'')]"
    "tp_parse tpWrite0 = None" "tp_pre tpWrite0 = None" "tp_post tpWrite0 = None"
    by (simp_all add: tpWrite0_def)
  have H: "ParseHook testEnv tpWrite0 ?c4 = (None, ?c5)"
    by (simp add: testEnv_def sel W)
  have R: "runParsers testEnv [] None ?c0 = (None, ?c5, hookOrder [tpWrite0])"
    by (simp add: runParsers_def P Let_def cHost_fields H hookOrder_def)
       (simp add: testEnv_def sel)
  show ?thesis
    unfolding cHostW_eq using R by simp
qed

subsection \<open>The check of the required options\<close>

text \<open>
  C4. Let the passes of \<open>Parse\<close> over the parsers end without an error, in the manager
  \<open>c6\<close>. If some group of \<open>c6\<close> has a required option with no current value and no
  default, \<open>Parse\<close> returns the missing-required-option error naming such a group and
  option. If there is none, \<open>Parse\<close> returns what the validators return. An option that
  \<open>SetOptValue\<close> has written without an error, at any priority, \<open>0\<close> included, has a
  current value afterwards and is not missing. When the \<open>Parse\<close> hook of a source has run
  in this call of \<open>Parse\<close> and writes the option, and no later hook takes the value away,
  the option holds a value in \<open>c6\<close>, where \<open>Parse\<close> makes its check, and is not missing.
  And \<open>Parse\<close> does not fail on account of an option that holds a value in \<open>c6\<close>: it
  returns what the validators return, or the missing-required-option error of an option
  that is missing, under another group name or another option name.
\<close>

theorem Parse_checks_required_options:
  assumes "\<not> parsed c" and "runParsers I os a c = (None, c6, calls)"
  shows "fst (snd (Parse I os a c)) = c6
    \<and> ((\<exists>k grp n e. (k, grp) \<in> set (groups c6) \<and> (n, e) \<in> set (opts grp) \<and> isMissing e)
         \<longrightarrow> (\<exists>k grp n e. (k, grp) \<in> set (groups c6) \<and> (n, e) \<in> set (opts grp) \<and> isMissing e
                \<and> fst (Parse I os a c) = Return (Some (ErrMissingRequired (group_name grp) n))))
    \<and> ((\<forall>k grp n e. (k, grp) \<in> set (groups c6) \<and> (n, e) \<in> set (opts grp) \<longrightarrow> \<not> isMissing e)
         \<longrightarrow> fst (Parse I os a c) = Return (runValidators (Validate I) (validators c6)))
    \<and> (\<forall>p g n v d. fst (SetOptValue p g n v d) = None
          \<longrightarrow> (\<exists>e. lookupOpt g n (snd (SetOptValue p g n v d)) = Some e
                   \<and> currentValue e \<noteq> None \<and> \<not> isMissing e))
    \<and> (\<forall>p g n. (ParseP, p) \<in> set calls \<and> writesOpt I p g n \<and> keepsValue I g n
          \<longrightarrow> (\<exists>e. lookupOpt g n c6 = Some e \<and> currentValue e \<noteq> None \<and> \<not> isMissing e))
    \<and> (\<forall>g grp n e. wfGroups c6 \<and> lookupGroup g c6 = Some grp \<and> map_of (opts grp) n = Some e
            \<and> currentValue e \<noteq> None
          \<longrightarrow> fst (Parse I os a c) = Return (runValidators (Validate I) (validators c6))
            \<or> (\<exists>k' grp' n' e'. (k', grp') \<in> set (groups c6) \<and> (n', e') \<in> set (opts grp')
                  \<and> isMissing e' \<and> (group_name grp', n') \<noteq> (group_name grp, n)
                  \<and> fst (Parse I os a c)
                      = Return (Some (ErrMissingRequired (group_name grp') n'))))"
proof -
  note P = Parse_after_parsers[OF assms]
  have 1: "fst (snd (Parse I os a c)) = c6" by (simp add: P)
  have 2: "\<exists>k grp n e. (k, grp) \<in> set (groups c6) \<and> (n, e) \<in> set (opts grp) \<and> isMissing e
                \<and> fst (Parse I os a c) = Return (Some (ErrMissingRequired (group_name grp) n))"
    if "\<exists>k grp n e. (k, grp) \<in> set (groups c6) \<and> (n, e) \<in> set (opts grp) \<and> isMissing e"
  proof -
    from that have "checkRequiredOptions (groups c6) \<noteq> None"
      unfolding checkRequiredOptions_None_iff by blast
    then obtain err where err: "checkRequiredOptions (groups c6) = Some err" by auto
    from checkRequiredOptions_Some[OF err] err show ?thesis
      by (auto simp: P)
  qed
  have 3: "fst (Parse I os a c) = Return (runValidators (Validate I) (validators c6))"
    if "\<forall>k grp n e. (k, grp) \<in> set (groups c6) \<and> (n, e) \<in> set (opts grp) \<longrightarrow> \<not> isMissing e"
  proof -
    from that have "checkRequiredOptions (groups c6) = None"
      unfolding checkRequiredOptions_None_iff by blast
    then show ?thesis by (simp add: P)
  qed
  have 5: "\<exists>e. lookupOpt g n c6 = Some e \<and> currentValue e \<noteq> None \<and> \<not> isMissing e"
    if "(ParseP, p) \<in> set calls \<and> writesOpt I p g n \<and> keepsValue I g n" for p g n
  proof -
    from that written_persists[OF assms(2), of p g n] have "hasValue g n c6" by simp
    then show ?thesis by (auto simp: hasValue_entry isMissing_def)
  qed
  have 6: "fst (Parse I os a c) = Return (runValidators (Validate I) (validators c6))
            \<or> (\<exists>k' grp' n' e'. (k', grp') \<in> set (groups c6) \<and> (n', e') \<in> set (opts grp')
                  \<and> isMissing e' \<and> (group_name grp', n') \<noteq> (group_name grp, n)
                  \<and> fst (Parse I os a c)
                      = Return (Some (ErrMissingRequired (group_name grp') n')))"
    if "wfGroups c6 \<and> lookupGroup g c6 = Some grp \<and> map_of (opts grp) n = Some e
            \<and> currentValue e \<noteq> None" for g grp n e
    using that not_on_its_account[OF assms, of g grp n e] by simp
  from 1 2 3 SetOptValue_written 5 6 show ?thesis by blast
qed


theorem Parse_checks_required_options_witness:
  "\<not> parsed cHost
   \<and> runParsers testEnv [] None cHost = (None, cHost\<lparr>cliArgs := [], parsed := True\<rparr>, [])
   \<and> fst (Parse testEnv [] None cHost) = Return (Some (ErrMissingRequired ''DEFAULT'' ''host''))
   \<and> \<not> parsed cHostW
   \<and> runParsers testEnv [] None cHostW
       = (None, cHostW\<lparr>cliArgs := [], parsed := True, groups := hostWritten\<rparr>, hookOrder [tpWrite0])
   \<and> (ParseP, tpWrite0) \<in> set (hookOrder [tpWrite0])
   \<and> writesOpt testEnv tpWrite0 [] ''host'' \<and> keepsValue testEnv [] ''host''
   \<and> wfGroups (cHostW\<lparr>cliArgs := [], parsed := True, groups := hostWritten\<rparr>)
   \<and> storedValue [] ''host'' (cHostW\<lparr>cliArgs := [], parsed := True, groups := hostWritten\<rparr>)
       = Some (VString ''h'')
   \<and> fst (Parse testEnv [] None cHostW) = Return None"
proof -
  let ?c6 = "cHostW\<lparr>cliArgs := [], parsed := True, groups := hostWritten\<rparr>"
  have m: "fst (Parse testEnv [] None cHost) = Return (Some (ErrMissingRequired ''DEFAULT'' ''host''))"
    using Parse_checks_required_options[OF cHost_fields(1) cHost_runParsers]
    by (auto simp: cHost_fields isMissing_def hostEntry_def optHost_def)
  have np: "\<not> parsed cHostW" by (simp add: cHostW_eq cHost_fields)
  note T = Parse_checks_required_options[OF np cHostW_runParsers]
  have mem: "(ParseP, tpWrite0) \<in> set (hookOrder [tpWrite0])" by (simp add: hookOrder_def)
  have w: "writesOpt testEnv tpWrite0 [] ''host''"
    by (rule writesOpt_testEnv[of _ _ "VString ''h''"]) (simp add: tpWrite0_def)
  have k: "keepsValue testEnv [] ''host''" by (rule keepsValue_testEnv)
  have wf: "wfGroups ?c6" by (simp add: wfGroups_def hostWritten_def)
  from T mem w k obtain e where e: "lookupOpt [] ''host'' ?c6 = Some e" "currentValue e \<noteq> None"
    by blast
  have sv: "storedValue [] ''host'' ?c6 = Some (VString ''h'')"
    by (simp add: storedValue_def lookupOpt_def lookupGroup_key cHostW_eq cHost_fields
        TrimPrefix_def getGroupName_def hostWritten_def)
  have nm: "\<forall>k grp n e. (k, grp) \<in> set (groups ?c6) \<and> (n, e) \<in> set (opts grp) \<longrightarrow> \<not> isMissing e"
    by (simp add: hostWritten_def isMissing_def)
  from T nm have "fst (Parse testEnv [] None cHostW)
                    = Return (runValidators (Validate testEnv) (validators ?c6))" by blast
  then have r: "fst (Parse testEnv [] None cHostW) = Return None"
    by (simp add: cHostW_eq cHost_fields)
  from m np cHostW_runParsers mem w k wf sv r cHost_fields(1) cHost_runParsers show ?thesis by simp
qed

section \<open>Creating groups\<close>

lemma Split_a: "Split ''a'' ''.'' = [''a'']"
  by (simp add: Split.simps)

lemma Split_ab: "Split ''a.b'' ''.'' = [''a'', ''b'']"
  by (simp add: Split.simps)

lemma Split_abc: "Split ''a.b.c'' ''.'' = [''a'', ''b'', ''c'']"
  by (simp add: Split.simps)

lemma Split_ax: "Split ''a.x'' ''.'' = [''a'', ''x'']"
  by (simp add: Split.simps)

lemma Split_bx: "Split ''b.x'' ''.'' = [''b'', ''x'']"
  by (simp add: Split.simps)

lemma no_prefix_abc:
  assumes "g \<noteq> ''a''" "g \<noteq> ''a.b''"
  shows "\<not> prefix (g @ ''.'') ''a''" "\<not> prefix (g @ ''.'') ''a.b''" "\<not> prefix (g @ ''.'') ''a.b.c''"
  using assms by (auto simp: prefix_def append_eq_Cons_conv Cons_eq_append_conv)

lemma newOptGroup_hasKey: "hasKey k (newOptGroup k f c)"
  by (simp add: hasKey_def newOptGroup_def map_add_def split: option.splits)

lemma newOptGroup_keeps:
  "map_of (groups c) k = Some g \<Longrightarrow> map_of (groups (newOptGroup k' f c)) k = Some g"
  by (simp add: newOptGroup_def map_add_def split: option.splits)

lemma newOptGroup_mono: "hasKey k c \<Longrightarrow> hasKey k (newOptGroup k' f c)"
  by (auto simp: hasKey_def newOptGroup_keeps)

lemma newOptGroup_idem: "hasKey k c \<Longrightarrow> newOptGroup k f c = c"
  by (auto simp: hasKey_def newOptGroup_def)

lemma getGroupByName_abc:
  assumes "groupSep s = ''.''" "\<not> prefix (groupPrefix s) ''a.b.c''"
  shows "snd (getGroupByName ''a.b.c'' True s) =
     newOptGroup ''c'' ''a.b.c'' (newOptGroup ''a.b.c'' ''a.b.c''
       (newOptGroup ''b'' ''a.b'' (newOptGroup ''a.b'' ''a.b'' (newOptGroup ''a'' ''a'' s))))"
    and "fst (getGroupByName ''a.b.c'' True s) = Some ''a.b.c''"
proof -
  have i: "newOptGroup ''a'' ''a'' (newOptGroup ''a'' ''a'' s) = newOptGroup ''a'' ''a'' s"
    by (simp add: newOptGroup_idem newOptGroup_hasKey)
  show "snd (getGroupByName ''a.b.c'' True s) =
     newOptGroup ''c'' ''a.b.c'' (newOptGroup ''a.b.c'' ''a.b.c''
       (newOptGroup ''b'' ''a.b'' (newOptGroup ''a.b'' ''a.b'' (newOptGroup ''a'' ''a'' s))))"
    using assms by (simp add: getGroupByName_def TrimPrefix_def Split_abc Let_def i)
  have "hasKey ''a.b.c'' (snd (getGroupByName ''a.b.c'' True s))"
    using assms
    by (simp add: getGroupByName_def TrimPrefix_def Split_abc Let_def i newOptGroup_mono
        newOptGroup_hasKey)
  then show "fst (getGroupByName ''a.b.c'' True s) = Some ''a.b.c''"
    using assms
    by (simp add: getGroupByName_def TrimPrefix_def Split_abc Let_def groupPtr_def hasKey_def)
qed

lemma getGroupByName_ab:
  assumes "groupSep s = ''.''" "\<not> prefix (groupPrefix s) ''a.b''"
  shows "snd (getGroupByName ''a.b'' True s) =
       newOptGroup ''b'' ''a.b'' (newOptGroup ''a.b'' ''a.b'' (newOptGroup ''a'' ''a'' s))"
proof -
  have i: "newOptGroup ''a'' ''a'' (newOptGroup ''a'' ''a'' s) = newOptGroup ''a'' ''a'' s"
    by (simp add: newOptGroup_idem newOptGroup_hasKey)
  show ?thesis
    using assms by (simp add: getGroupByName_def TrimPrefix_def Split_ab Let_def i)
qed

lemma getGroupByName_a:
  assumes "groupSep s = ''.''" "\<not> prefix (groupPrefix s) ''a''"
  shows "snd (getGroupByName ''a'' True s) = newOptGroup ''a'' ''a'' s"
proof -
  have i: "newOptGroup ''a'' ''a'' (newOptGroup ''a'' ''a'' s) = newOptGroup ''a'' ''a'' s"
    by (simp add: newOptGroup_idem newOptGroup_hasKey)
  show ?thesis
    using assms by (simp add: getGroupByName_def TrimPrefix_def Split_a Let_def i)
qed

lemma newOptGroup_fields:
  "parsed (newOptGroup k f s) = parsed s" "groupSep (newOptGroup k f s) = groupSep s"
  "groupPrefix (newOptGroup k f s) = groupPrefix s" "groupName (newOptGroup k f s) = groupName s"
  by (simp_all add: newOptGroup_def split: option.splits)

lemma NewGroup_unparsed:
  "\<not> parsed c \<Longrightarrow>
     NewGroup g c = (Return (fst (getGroupByName g True c)), snd (getGroupByName g True c))"
  by (simp add: NewGroup_def panicIsParsed_def case_prod_beta)

lemma getGroupByName_keeps:
  assumes "map_of (groups c) k = Some g"
  shows "map_of (groups (snd (getGroupByName n new c))) k = Some g"
proof -
  have "map_of (groups (fold (\<lambda>(i, gname) c1.
            let fullName = Join (take (i + 1) gs) sep
            in newOptGroup gname fullName (newOptGroup fullName fullName c1)) xs c)) k = Some g"
    for gs sep xs
    by (rule fold_inv[where P="\<lambda>s. map_of (groups s) k = Some g"])
       (simp_all add: split_def Let_def newOptGroup_keeps assms)
  then show ?thesis
    by (simp add: getGroupByName_def Let_def newOptGroup_keeps assms)
qed

lemma NewGroup_ax:
  "snd (NewGroup ''a.x'' (NewConfig :: (testParser, error option) Config)) =
     NewConfig\<lparr>groups := [(''a'', OptGroup_new ''a'' ''a''), (''a.x'', OptGroup_new ''a.x'' ''a.x''),
                           (''x'', OptGroup_new ''x'' ''a.x'')]\<rparr>"
  by (simp add: NewGroup_def panicIsParsed_def NewConfig_eq getGroupByName_def TrimPrefix_def
      Split_ax newOptGroup_def groupPtr_def Let_def)

lemma NewGroup_bx:
  "snd (NewGroup ''b.x'' (snd (NewGroup ''a.x'' (NewConfig :: (testParser, error option) Config)))) =
     NewConfig\<lparr>groups := [(''a'', OptGroup_new ''a'' ''a''), (''a.x'', OptGroup_new ''a.x'' ''a.x''),
                           (''x'', OptGroup_new ''x'' ''a.x''), (''b'', OptGroup_new ''b'' ''b''),
                           (''b.x'', OptGroup_new ''b.x'' ''b.x'')]\<rparr>"
  unfolding NewGroup_ax
  by (simp add: NewGroup_def panicIsParsed_def NewConfig_eq getGroupByName_def TrimPrefix_def
      Split_bx newOptGroup_def groupPtr_def Let_def)

subsection \<open>A path created at once or step by step\<close>

lemma Split_slash:
  "Split ''a'' ''/'' = [''a'']" "Split ''a.b'' ''/'' = [''a.b'']"
  "Split ''a.b.c'' ''/'' = [''a.b.c'']"
  by (simp_all add: Split.simps)

lemma Split_bc: "Split ''b.c'' ''.'' = [''b'', ''c'']" "Split ''b'' ''.'' = [''b'']"
  by (simp_all add: Split.simps)

lemma cDefaultA_eq: "cDefaultA = NewConfig\<lparr>groupName := ''a'', groupPrefix := ''a.''\<rparr>"
  by (simp add: cDefaultA_def SetDefaultGroupName_def panicIsParsed_def NewConfig_eq)

lemma cSlash_eq: "cSlash = NewConfig\<lparr>groupSep := ''/'', groupPrefix := ''DEFAULT/''\<rparr>"
  by (simp add: cSlash_def SetGroupSeparator_def panicIsParsed_def NewConfig_eq)

lemma cDefaultA_direct:
  "snd (NewGroup ''a.b.c'' cDefaultA) =
     cDefaultA\<lparr>groups := [(''b'', OptGroup_new ''b'' ''b''), (''b.c'', OptGroup_new ''b.c'' ''b.c''),
                           (''c'', OptGroup_new ''c'' ''b.c'')]\<rparr>"
  unfolding cDefaultA_eq
  by (simp add: NewGroup_def panicIsParsed_def NewConfig_eq getGroupByName_def TrimPrefix_def
      Split_bc newOptGroup_def groupPtr_def Let_def)

lemma cDefaultA_step1:
  "snd (NewGroup ''a'' cDefaultA) = cDefaultA\<lparr>groups := [(''a'', OptGroup_new ''a'' ''a'')]\<rparr>"
  unfolding cDefaultA_eq
  by (simp add: NewGroup_def panicIsParsed_def NewConfig_eq getGroupByName_def TrimPrefix_def
      Split_a newOptGroup_def groupPtr_def Let_def)

lemma cDefaultA_step2:
  "snd (NewGroup ''a.b'' (cDefaultA\<lparr>groups := [(''a'', OptGroup_new ''a'' ''a'')]\<rparr>)) =
     cDefaultA\<lparr>groups := [(''a'', OptGroup_new ''a'' ''a''), (''b'', OptGroup_new ''b'' ''b'')]\<rparr>"
  unfolding cDefaultA_eq
  by (simp add: NewGroup_def panicIsParsed_def NewConfig_eq getGroupByName_def TrimPrefix_def
      Split_bc newOptGroup_def groupPtr_def Let_def)

lemma cDefaultA_step3:
  "snd (NewGroup ''a.b.c''
          (cDefaultA\<lparr>groups := [(''a'', OptGroup_new ''a'' ''a''), (''b'', OptGroup_new ''b'' ''b'')]\<rparr>)) =
     cDefaultA\<lparr>groups := [(''a'', OptGroup_new ''a'' ''a''), (''b'', OptGroup_new ''b'' ''b''),
                           (''b.c'', OptGroup_new ''b.c'' ''b.c''), (''c'', OptGroup_new ''c'' ''b.c'')]\<rparr>"
  unfolding cDefaultA_eq
  by (simp add: NewGroup_def panicIsParsed_def NewConfig_eq getGroupByName_def TrimPrefix_def
      Split_bc newOptGroup_def groupPtr_def Let_def)

lemma cSlash_direct:
  "snd (NewGroup ''a.b.c'' cSlash) =
     cSlash\<lparr>groups := [(''a.b.c'', OptGroup_new ''a.b.c'' ''a.b.c'')]\<rparr>"
  unfolding cSlash_eq
  by (simp add: NewGroup_def panicIsParsed_def NewConfig_eq getGroupByName_def TrimPrefix_def
      Split_slash newOptGroup_def groupPtr_def Let_def)

lemma cSlash_step1:
  "snd (NewGroup ''a'' cSlash) = cSlash\<lparr>groups := [(''a'', OptGroup_new ''a'' ''a'')]\<rparr>"
  unfolding cSlash_eq
  by (simp add: NewGroup_def panicIsParsed_def NewConfig_eq getGroupByName_def TrimPrefix_def
      Split_slash newOptGroup_def groupPtr_def Let_def)

lemma cSlash_step2:
  "snd (NewGroup ''a.b'' (cSlash\<lparr>groups := [(''a'', OptGroup_new ''a'' ''a'')]\<rparr>)) =
     cSlash\<lparr>groups := [(''a'', OptGroup_new ''a'' ''a''), (''a.b'', OptGroup_new ''a.b'' ''a.b'')]\<rparr>"
  unfolding cSlash_eq
  by (simp add: NewGroup_def panicIsParsed_def NewConfig_eq getGroupByName_def TrimPrefix_def
      Split_slash newOptGroup_def groupPtr_def Let_def)

lemma cSlash_step3:
  "snd (NewGroup ''a.b.c''
          (cSlash\<lparr>groups := [(''a'', OptGroup_new ''a'' ''a''), (''a.b'', OptGroup_new ''a.b'' ''a.b'')]\<rparr>)) =
     cSlash\<lparr>groups := [(''a'', OptGroup_new ''a'' ''a''), (''a.b'', OptGroup_new ''a.b'' ''a.b''),
                        (''a.b.c'', OptGroup_new ''a.b.c'' ''a.b.c'')]\<rparr>"
  unfolding cSlash_eq
  by (simp add: NewGroup_def panicIsParsed_def NewConfig_eq getGroupByName_def TrimPrefix_def
      Split_slash newOptGroup_def groupPtr_def Let_def)

text \<open>
  C7, as claimed, is false: the claim is made for every registry. In a registry whose
  default group is named a, the prefix \<open>a.\<close> is stripped from a.b.c and from a.b but not
  from a: the single call creates the groups b, b.c and c, the three calls create a as
  well, so \<open>HasGroup\<close> of a tells the two registries apart. In a registry whose separator
  is the slash, no name is split: the single call creates the one group a.b.c, the three
  calls create a, a.b and a.b.c, and \<open>HasGroup\<close> of a.b tells them apart.
\<close>

theorem NewGroup_abc_counterexample:
  "map fst (groups (snd (NewGroup ''a.b.c'' cDefaultA))) = [''b'', ''b.c'', ''c'']
   \<and> map fst (groups (snd (NewGroup ''a.b.c'' (snd (NewGroup ''a.b'' (snd (NewGroup ''a'' cDefaultA)))))))
        = [''a'', ''b'', ''b.c'', ''c'']
   \<and> HasGroup ''a'' (snd (NewGroup ''a.b.c'' (snd (NewGroup ''a.b'' (snd (NewGroup ''a'' cDefaultA))))))
   \<and> \<not> HasGroup ''a'' (snd (NewGroup ''a.b.c'' cDefaultA))
   \<and> map fst (groups (snd (NewGroup ''a.b.c'' cSlash))) = [''a.b.c'']
   \<and> map fst (groups (snd (NewGroup ''a.b.c'' (snd (NewGroup ''a.b'' (snd (NewGroup ''a'' cSlash)))))))
        = [''a'', ''a.b'', ''a.b.c'']
   \<and> HasGroup ''a.b'' (snd (NewGroup ''a.b.c'' (snd (NewGroup ''a.b'' (snd (NewGroup ''a'' cSlash))))))
   \<and> \<not> HasGroup ''a.b'' (snd (NewGroup ''a.b.c'' cSlash))"
  unfolding cDefaultA_step1 cDefaultA_step2 cDefaultA_step3 cDefaultA_direct
    cSlash_step1 cSlash_step2 cSlash_step3 cSlash_direct
  by (simp add: HasGroup_def getGroupByName_def groupPtr_def getGroupName_def TrimPrefix_def
      cDefaultA_eq cSlash_eq NewConfig_eq Let_def)

text \<open>
  C7, amended. In a manager whose separator is the dot and whose default group is named
  neither a nor a.b (its prefix is then not stripped from any of the three names),
  \<open>NewGroup\<close> of a.b.c after \<open>NewGroup\<close> of a and of a.b returns the same, and leaves the
  same manager, as \<open>NewGroup\<close> of a.b.c alone: the same groups under the same keys, each
  with the same name, full name and options.
\<close>

theorem NewGroup_abc_incremental:
  assumes "groupSep c = ''.''" and "groupPrefix c = groupName c @ groupSep c"
    and "groupName c \<noteq> ''a''" and "groupName c \<noteq> ''a.b''"
  shows "NewGroup ''a.b.c'' (snd (NewGroup ''a.b'' (snd (NewGroup ''a'' c)))) = NewGroup ''a.b.c'' c"
proof (cases "parsed c")
  case True
  then show ?thesis by (simp add: NewGroup_def panicIsParsed_def)
next
  case False
  have np: "\<not> prefix (groupPrefix c) ''a''" "\<not> prefix (groupPrefix c) ''a.b''"
    "\<not> prefix (groupPrefix c) ''a.b.c''"
    using no_prefix_abc[OF assms(3,4)] assms(1,2) by simp_all
  let ?s1 = "newOptGroup ''a'' ''a'' c"
  let ?s2 = "newOptGroup ''b'' ''a.b'' (newOptGroup ''a.b'' ''a.b'' ?s1)"
  let ?s3 = "newOptGroup ''c'' ''a.b.c'' (newOptGroup ''a.b.c'' ''a.b.c'' ?s2)"
  have 1: "snd (NewGroup ''a'' c) = ?s1"
    using getGroupByName_a[OF assms(1) np(1)]
    by (simp add: NewGroup_unparsed[OF False])
  have s1: "groupSep ?s1 = ''.''" "\<not> prefix (groupPrefix ?s1) ''a.b''" "\<not> parsed ?s1"
    using assms(1) np False by (simp_all add: newOptGroup_fields)
  have a1: "newOptGroup ''a'' ''a'' ?s1 = ?s1"
    by (simp add: newOptGroup_idem newOptGroup_hasKey)
  have 2: "snd (NewGroup ''a.b'' ?s1) = ?s2"
    using getGroupByName_ab[OF s1(1,2)] a1
    by (simp add: NewGroup_unparsed[OF s1(3)])
  have s2: "groupSep ?s2 = ''.''" "\<not> prefix (groupPrefix ?s2) ''a.b.c''" "\<not> parsed ?s2"
    using assms(1) np False by (simp_all add: newOptGroup_fields)
  have k: "hasKey ''a'' ?s2" "hasKey ''a.b'' ?s2" "hasKey ''b'' ?s2"
    by (simp_all add: newOptGroup_mono newOptGroup_hasKey)
  have a2: "newOptGroup ''b'' ''a.b'' (newOptGroup ''a.b'' ''a.b'' (newOptGroup ''a'' ''a'' ?s2)) = ?s2"
    using k by (simp only: newOptGroup_idem)
  have 3: "NewGroup ''a.b.c'' ?s2 = (Return (Some ''a.b.c''), ?s3)"
    using getGroupByName_abc[OF s2(1,2)] a2
    by (simp add: NewGroup_unparsed[OF s2(3)])
  have 4: "NewGroup ''a.b.c'' c = (Return (Some ''a.b.c''), ?s3)"
    using getGroupByName_abc[OF assms(1) np(3)]
    by (simp add: NewGroup_unparsed[OF False])
  show ?thesis
    by (simp only: 1 2 3 4 snd_conv)
qed

theorem NewGroup_abc_incremental_witness:
  "groupSep (NewConfig :: (testParser, error option) Config) = ''.''
   \<and> groupPrefix (NewConfig :: (testParser, error option) Config)
        = groupName (NewConfig :: (testParser, error option) Config)
          @ groupSep (NewConfig :: (testParser, error option) Config)
   \<and> groupName (NewConfig :: (testParser, error option) Config) \<noteq> ''a''
   \<and> groupName (NewConfig :: (testParser, error option) Config) \<noteq> ''a.b''
   \<and> NewGroup ''a.b.c'' (snd (NewGroup ''a.b'' (snd (NewGroup ''a''
         (NewConfig :: (testParser, error option) Config)))))
       = NewGroup ''a.b.c'' (NewConfig :: (testParser, error option) Config)
   \<and> map fst (groups (snd (NewGroup ''a.b.c'' (NewConfig :: (testParser, error option) Config))))
       = [''a'', ''a.b'', ''b'', ''a.b.c'', ''c'']"
proof -
  let ?c = "NewConfig :: (testParser, error option) Config"
  have h: "groupSep ?c = ''.''" "groupPrefix ?c = groupName ?c @ groupSep ?c"
    "groupName ?c \<noteq> ''a''" "groupName ?c \<noteq> ''a.b''"
    by (simp_all add: NewConfig_eq)
  have g: "map fst (groups (snd (NewGroup ''a.b.c'' ?c))) = [''a'', ''a.b'', ''b'', ''a.b.c'', ''c'']"
    by (simp add: NewGroup_def panicIsParsed_def NewConfig_eq getGroupByName_def TrimPrefix_def
        Split_abc newOptGroup_def groupPtr_def Let_def)
  from NewGroup_abc_incremental[OF h] h g show ?thesis by simp
qed

subsection \<open>The alias of the last segment\<close>

text \<open>
  C8, as claimed, is false: the claim is that the bare last segment finds the group of
  the full path that created it most recently. After \<open>NewGroup\<close> of a.x and then of b.x
  the name x finds the group with the full name a.x, created by the first call; the
  second call has created b and b.x only.
\<close>

theorem alias_rebound_counterexample:
  "(let c2 = snd (NewGroup ''b.x'' (snd (NewGroup ''a.x''
                (NewConfig :: (testParser, error option) Config))))
    in lookupGroup ''x'' c2 = Some \<lparr>group_name = ''x'', group_fullName = ''a.x'', opts = []\<rparr>
     \<and> lookupGroup ''b.x'' c2 = Some \<lparr>group_name = ''b.x'', group_fullName = ''b.x'', opts = []\<rparr>
     \<and> lookupGroup ''a.x'' c2 = Some \<lparr>group_name = ''a.x'', group_fullName = ''a.x'', opts = []\<rparr>)"
  unfolding NewGroup_bx
  by (simp add: Let_def lookupGroup_key NewConfig_eq TrimPrefix_def getGroupName_def OptGroup_new_def)

text \<open>
  C8, amended. \<open>newOptGroup\<close> creates a group only under a key that holds none. So a
  name that finds a group keeps finding that very group whatever groups are created
  later: the alias of a last segment is bound when it is first created and is never
  rebound.
\<close>

theorem alias_never_rebound:
  assumes "lookupGroup seg c = Some g"
  shows "lookupGroup seg (snd (getGroupByName path True c)) = Some g
       \<and> lookupGroup seg (snd (NewGroup path c)) = Some g"
proof -
  let ?k = "getGroupName (TrimPrefix seg (groupPrefix c)) c"
  from assms have k: "map_of (groups c) ?k = Some g" by (simp add: lookupGroup_key)
  have 1: "lookupGroup seg (snd (getGroupByName path True c)) = Some g"
    using getGroupByName_keeps[OF k, of path True]
    by (auto simp: lookupGroup_key getGroupByName_fields getGroupName_def split: if_splits)
  have 2: "lookupGroup seg (snd (NewGroup path c)) = Some g"
  proof (cases "parsed c")
    case True
    then show ?thesis using assms by (simp add: NewGroup_def panicIsParsed_def)
  next
    case False
    then show ?thesis using 1 by (simp add: NewGroup_unparsed)
  qed
  from 1 2 show ?thesis by simp
qed

theorem alias_never_rebound_witness:
  "lookupGroup ''x'' (snd (NewGroup ''a.x'' (NewConfig :: (testParser, error option) Config)))
      = Some (OptGroup_new ''x'' ''a.x'')
   \<and> lookupGroup ''x'' (snd (NewGroup ''b.x'' (snd (NewGroup ''a.x''
        (NewConfig :: (testParser, error option) Config))))) = Some (OptGroup_new ''x'' ''a.x'')"
proof -
  have l: "lookupGroup ''x'' (snd (NewGroup ''a.x'' (NewConfig :: (testParser, error option) Config)))
      = Some (OptGroup_new ''x'' ''a.x'')"
    unfolding NewGroup_ax
    by (simp add: lookupGroup_key NewConfig_eq TrimPrefix_def getGroupName_def)
  from alias_never_rebound[OF l, of "''b.x''"] l show ?thesis by simp
qed

section \<open>The order of the hook calls\<close>

lemma applyHooks_simps [simp]:
  "applyHooks h [] c = c"
  "applyHooks h (p # ps) c = applyHooks h ps (snd (h p c))"
  by (simp_all add: applyHooks_def)

lemma applyHooks_take_Suc:
  "i < length ps \<Longrightarrow> applyHooks h (take (Suc i) ps) c = snd (h (ps ! i) (applyHooks h (take i ps) c))"
  by (simp add: applyHooks_def take_Suc_conv_app_nth)

lemma applyHooks_keeps: "hookKeeps f h \<Longrightarrow> f (applyHooks h ps c) = f c"
  by (induction ps arbitrary: c) (simp_all add: hookKeeps_def)



lemma hooks_cases:
  "hooksOk h ps c \<or> (\<exists>i e. firstFails h ps i e c)"
proof (induction ps arbitrary: c)
  case Nil
  show ?case by simp
next
  case (Cons p ps)
  obtain r c1 where h: "h p c = (r, c1)" by (cases "h p c")
  show ?case
  proof (cases r)
    case (Some e)
    with h have "firstFails h (p # ps) 0 e c" by (simp add: firstFails_def)
    then show ?thesis by blast
  next
    case None
    from Cons.IH[of c1] show ?thesis
    proof
      assume "hooksOk h ps c1"
      with h None show ?thesis by simp
    next
      assume "\<exists>i e. firstFails h ps i e c1"
      then obtain i e where "firstFails h ps i e c1" by blast
      with h None have "firstFails h (p # ps) (Suc i) e c" by (simp add: firstFails_def)
      then show ?thesis by blast
    qed
  qed
qed

lemma started_fields:
  "parsers (started os a c) = parsers c" "parsed (started os a c) = parsed c"
  by (simp_all add: started_def getGroupByName_fields)


lemma preDone_parsers: "keepsParsers I \<Longrightarrow> parsers (preDone I os a c) = parsers c"
  by (simp add: preDone_def keepsParsers_def applyHooks_keeps started_fields)

lemma parseDone_parsers: "keepsParsers I \<Longrightarrow> parsers (parseDone I os a c) = parsers c"
  by (simp add: parseDone_def keepsParsers_def applyHooks_keeps preDone_parsers)







lemma testEnv_Pre_Post: "Pre testEnv p s = (tp_pre p, s)" "Post testEnv p s = (tp_post p, s)"
  by (simp_all add: testEnv_def)










lemma cFail_eq: "cFail = NewConfig\<lparr>parsers := [tpFailParse]\<rparr>"
  by (simp add: cFail_def AddParser1)

lemma cFail_fields: "\<not> parsed cFail" "parsers cFail = [tpFailParse]"
  by (simp_all add: cFail_eq NewConfig_eq)


lemma cFail_started:
  "started [] None cFail
     = NewConfig\<lparr>parsers := [tpFailParse],
                  groups := [(''DEFAULT'', OptGroup_new ''DEFAULT'' ''DEFAULT'')], cliArgs := []\<rparr>"
proof -
  have g: "groupName (NewConfig\<lparr>parsers := [tpFailParse]\<rparr>) = ''DEFAULT''"
    by (simp add: NewConfig_eq)
  show ?thesis by (simp add: started_def cFail_eq g ensureDefault)
qed

lemma cFail_preDone:
  "preDone testEnv [] None cFail
     = NewConfig\<lparr>parsers := [tpFailParse],
                  groups := [(''DEFAULT'', OptGroup_new ''DEFAULT'' ''DEFAULT'')], cliArgs := [],
                  parsed := True\<rparr>"
  by (simp add: preDone_def cFail_fields cFail_started testEnv_Pre_Post)










end
